theory Spec2Isabelle
  imports Complex_Main
begin

chapter \<open>The trading engine: data model and operations\<close>

section \<open>Errors and logging\<close>

text \<open>
  Python exceptions are values. Each constructor is an exception class that one of the
  modelled functions raises or catches; \<open>OtherError\<close> stands for any further subclass of
  \<open>Exception\<close> raised by a collaborator (repository, kill-switch file, transport).
  Floating-point numbers are modelled by the reals throughout, and the clock and the
  random source are inputs.
\<close>

datatype error =
    ValueError
  | TypeError
  | ZeroDivisionError
  | OverflowError
  | OSError
  | AssertionError
  | QueueFull
  | RuntimeError string
  | TimeoutError
  | OtherError string

datatype log_level = INFO | WARNING | ERROR

type_synonym log_entry = "log_level \<times> string"

section \<open>Python built-ins used by the engine\<close>

text \<open>
  \<open>int(x)\<close> truncates towards zero; \<open>round(x)\<close> rounds to the nearest integer, halves to
  the even neighbour; \<open>round(x, 2)\<close> does the same at the second decimal; \<open>str.upper\<close> is
  modelled on ASCII letters.
\<close>

definition py_int :: "real \<Rightarrow> int" where
  "py_int x = (if 0 \<le> x then \<lfloor>x\<rfloor> else \<lceil>x\<rceil>)"

definition py_round :: "real \<Rightarrow> int" where
  "py_round x =
     (let f = \<lfloor>x\<rfloor>; d = x - of_int f
      in if d < 1 / 2 then f else if 1 / 2 < d then f + 1 else if even f then f else f + 1)"


definition upper_char :: "char \<Rightarrow> char" where
  "upper_char c =
     (let n = (of_char c :: nat) in if 97 \<le> n \<and> n \<le> 122 then char_of (n - 32) else c)"

definition py_upper :: "string \<Rightarrow> string" where
  "py_upper s = map upper_char s"

section \<open>The bounded trade queue (asyncio.Queue)\<close>

text \<open>
  \<open>asyncio.Queue(maxsize=3)\<close> as the engine uses it: the waiting items in FIFO order and
  the counter of unfinished tasks. \<open>put_nowait\<close> raises \<open>QueueFull\<close> when the queue is
  full and otherwise appends and counts one more unfinished task; \<open>task_done\<close> raises
  \<open>ValueError\<close> when it is called more often than items were put.
\<close>

record 'a queue =
  maxsize :: int
  items :: "'a list"
  unfinished_tasks :: int

definition queue_full :: "'a queue \<Rightarrow> bool" where
  "queue_full q = (if maxsize q \<le> 0 then False else maxsize q \<le> int (length (items q)))"

definition put_nowait :: "'a queue \<Rightarrow> 'a \<Rightarrow> error + 'a queue" where
  "put_nowait q x =
     (if queue_full q then Inl QueueFull
      else Inr (q\<lparr>items := items q @ [x], unfinished_tasks := unfinished_tasks q + 1\<rparr>))"

definition task_done :: "'a queue \<Rightarrow> error + 'a queue" where
  "task_done q =
     (if unfinished_tasks q \<le> 0 then Inl ValueError
      else Inr (q\<lparr>unfinished_tasks := unfinished_tasks q - 1\<rparr>))"

record TradeIntent =
  intent_symbol :: string
  intent_side :: string
  intent_score :: real
  intent_stake :: real
  intent_reason :: string
  intent_entry_price :: real
  intent_take_profit_usd :: "real option"
  intent_stop_loss_usd :: "real option"

text \<open>
  The tail of \<open>on_candle\<close> (and of \<open>run_timer\<close>): \<open>put_nowait\<close> inside a
  \<open>try\<close> whose handler catches \<open>asyncio.QueueFull\<close> only. The state is the queue and
  the log.
\<close>

definition enqueue_intent ::
  "TradeIntent queue \<times> log_entry list \<Rightarrow> TradeIntent \<Rightarrow> error + (TradeIntent queue \<times> log_entry list)" where
  "enqueue_intent s intent =
     (case put_nowait (fst s) intent of
        Inr q \<Rightarrow> Inr (q, snd s @ [(INFO, ''trade_intent_enqueued'')])
      | Inl e \<Rightarrow>
          (if e = QueueFull then Inr (fst s, snd s @ [(WARNING, ''trade_queue_full_skip'')])
           else Inl e))"

text \<open>The queue as \<open>run_engine\<close> creates it, and an intent to exercise it with.\<close>

definition trade_queue :: "TradeIntent queue" where
  "trade_queue = \<lparr>maxsize = 3, items = [], unfinished_tasks = 0\<rparr>"

definition demo_intent :: TradeIntent where
  "demo_intent = \<lparr>intent_symbol = ''R_75'', intent_side = ''CALL'', intent_score = 7 / 10,
     intent_stake = 1, intent_reason = ''ok'', intent_entry_price = 100,
     intent_take_profit_usd = None, intent_stop_loss_usd = None\<rparr>"

section \<open>Market models\<close>

text \<open>
  A tick, a candle and the indicator values. The open time of a candle is the UTC
  datetime of the bucket start; it is modelled by its epoch second, which orders
  datetimes as the code's comparison does.
\<close>

record Tick =
  tick_symbol :: string
  epoch :: int
  price :: real

record Candle =
  candle_symbol :: string
  candle_timeframe_sec :: int
  open_time :: int
  candle_open :: real
  candle_high :: real
  candle_low :: real
  candle_close :: real
  volume :: int

record Indicators =
  ema_fast :: "real option"
  ema_slow :: "real option"
  atr :: "real option"
  rsi :: "real option"

text \<open>Float division: a zero divisor raises.\<close>

definition py_div :: "real \<Rightarrow> real \<Rightarrow> error + real" where
  "py_div a b = (if b = 0 then Inl ZeroDivisionError else Inr (a / b))"

section \<open>Candle aggregator\<close>

text \<open>
  \<open>_floor_time\<close> floors the epoch to the bucket start and converts it with
  \<open>datetime.fromtimestamp\<close>; the modulo raises for a zero timeframe. The conversion
  raises \<open>ValueError\<close> for a bucket start outside the years 1 to 9999; further out
  (CPython on 64-bit Linux) the C library's \<open>gmtime\<close> fails, for a year that does not
  fit its \<open>int\<close>, with \<open>OSError\<close>, and a bucket start that does not fit the 64-bit
  \<open>time_t\<close> raises \<open>OverflowError\<close>.
\<close>

definition min_timestamp :: int where
  "min_timestamp = - 62135596800"

definition max_timestamp :: int where
  "max_timestamp = 253402300799"

definition min_gmtime :: int where
  "min_gmtime = - 67768040609740800"

definition max_gmtime :: int where
  "max_gmtime = 67768036191676799"

definition fromtimestamp :: "int \<Rightarrow> error + int" where
  "fromtimestamp ts =
     (if ts < - (2 ^ 63) \<or> 2 ^ 63 \<le> ts then Inl OverflowError
      else if ts < min_gmtime \<or> max_gmtime < ts then Inl OSError
      else if ts < min_timestamp \<or> max_timestamp < ts then Inl ValueError
      else Inr ts)"

definition floor_time :: "int \<Rightarrow> int \<Rightarrow> error + int" where
  "floor_time ep tf =
     (if tf = 0 then Inl ZeroDivisionError
      else
        (let floored = ep - ep mod tf
         in fromtimestamp floored))"

record CandleBuilder =
  builder_symbol :: string
  timeframe_sec :: int
  current :: "Candle option"

text \<open>The candle that a tick opens.\<close>

definition open_candle :: "CandleBuilder \<Rightarrow> int \<Rightarrow> Tick \<Rightarrow> Candle" where
  "open_candle b ot tick =
     \<lparr>candle_symbol = builder_symbol b, candle_timeframe_sec = timeframe_sec b, open_time = ot,
      candle_open = price tick, candle_high = price tick, candle_low = price tick,
      candle_close = price tick, volume = 1\<rparr>"

text \<open>
  \<open>update_with_tick\<close> returns the new builder and the candle it closed, if any; the
  closed candle is also what the callback \<open>on_candle_closed\<close> receives, and an exception
  of the callback is swallowed.
\<close>

definition update_with_tick :: "CandleBuilder \<Rightarrow> Tick \<Rightarrow> error + (CandleBuilder \<times> Candle option)" where
  "update_with_tick b tick =
     (if tick_symbol tick \<noteq> builder_symbol b then Inr (b, None)
      else
        (case floor_time (epoch tick) (timeframe_sec b) of
           Inl e \<Rightarrow> Inl e
         | Inr ot \<Rightarrow>
             (case current b of
                None \<Rightarrow> Inr (b\<lparr>current := Some (open_candle b ot tick)\<rparr>, None)
              | Some c \<Rightarrow>
                  if open_time c < ot
                  then Inr (b\<lparr>current := Some (open_candle b ot tick)\<rparr>, Some c)
                  else Inr (b\<lparr>current := Some (c\<lparr>candle_close := price tick,
                                                    candle_high := max (candle_high c) (price tick),
                                                    candle_low := min (candle_low c) (price tick),
                                                    volume := volume c + 1\<rparr>)\<rparr>,
                            None))))"

text \<open>Feeding a sequence of ticks: the builder afterwards and the candles closed, in order.\<close>

fun feed_ticks :: "CandleBuilder \<Rightarrow> Tick list \<Rightarrow> error + (CandleBuilder \<times> Candle list)" where
  "feed_ticks b [] = Inr (b, [])"
| "feed_ticks b (t # ts) =
     (case update_with_tick b t of
        Inl e \<Rightarrow> Inl e
      | Inr (b', emitted) \<Rightarrow>
          (case feed_ticks b' ts of
             Inl e \<Rightarrow> Inl e
           | Inr (b'', cs) \<Rightarrow> Inr (b'', (case emitted of None \<Rightarrow> cs | Some c \<Rightarrow> c # cs))))"

definition new_builder :: "string \<Rightarrow> int \<Rightarrow> CandleBuilder" where
  "new_builder s tf = \<lparr>builder_symbol = s, timeframe_sec = tf, current = None\<rparr>"

text \<open>
  The words of the specification: the bucket of a tick, the number of ticks observed in a
  bucket, and the candle invariant.
\<close>

definition bucket_of :: "int \<Rightarrow> Tick \<Rightarrow> int" where
  "bucket_of tf t = epoch t - epoch t mod tf"

definition ticks_in_bucket :: "int \<Rightarrow> Tick list \<Rightarrow> int \<Rightarrow> int" where
  "ticks_in_bucket tf ticks k = int (length (filter (\<lambda>t. bucket_of tf t = k) ticks))"

definition ohlc_ok :: "Candle \<Rightarrow> bool" where
  "ohlc_ok c = (candle_low c \<le> candle_open c \<and> candle_open c \<le> candle_high c
                \<and> candle_low c \<le> candle_close c \<and> candle_close c \<le> candle_high c)"

text \<open>Ticks in order, and a sequence in which the second tick arrives late.\<close>

definition tick_at :: "int \<Rightarrow> real \<Rightarrow> Tick" where
  "tick_at e p = \<lparr>tick_symbol = ''R_75'', epoch = e, price = p\<rparr>"

definition ordered_ticks :: "Tick list" where
  "ordered_ticks = [tick_at 5 10, tick_at 30 12, tick_at 59 9, tick_at 61 11, tick_at 130 8]"

definition late_ticks :: "Tick list" where
  "late_ticks = [tick_at 60 10, tick_at 0 11, tick_at 120 12]"

section \<open>Order executor\<close>

record ExecutedTrade =
  contract_id :: int
  profit :: real
  buy_price :: real
  payout :: real
  is_win :: bool

text \<open>
  The requests the executor sends and the fields it reads from the answers. A field that
  the code reads with \<open>.get\<close> is an option; \<open>None\<close> is an absent (or null) field.
\<close>

record proposal_req =
  amount :: real
  basis :: string
  contract_type :: string
  currency :: string
  duration :: int
  duration_unit :: string
  multiplier :: "int option"
  req_symbol :: string

record buy_req =
  req_buy :: string
  req_price :: real
  req_limit_order :: "(int \<times> int) option"

record proposal_resp =
  proposal_error :: "string option"
  proposal_id :: "string option"

record buy_resp =
  buy_error :: "string option"
  buy_contract_id :: "int option"
  buy_buy_price :: "real option"

record poc_resp =
  poc_error :: "string option"
  poc_is_sold :: bool
  poc_profit :: "real option"
  poc_payout :: "real option"

text \<open>
  The transport client as the executor sees it: \<open>client.request\<close> answers or raises. The
  answer to the k-th status poll of a contract may differ from poll to poll.
\<close>

record client =
  on_proposal :: "proposal_req \<Rightarrow> error + proposal_resp"
  on_buy :: "buy_req \<Rightarrow> error + buy_resp"
  on_poc :: "int \<Rightarrow> nat \<Rightarrow> error + poc_resp"

record OrderExecutor =
  exec_symbol :: string
  exec_currency :: string

text \<open>\<open>x or default\<close> on an optional number: \<open>None\<close> and \<open>0\<close> are both falsy.\<close>

definition or_default :: "real option \<Rightarrow> real \<Rightarrow> real" where
  "or_default v d = (case v of None \<Rightarrow> d | Some x \<Rightarrow> if x = 0 then d else x)"

definition truthy :: "string option \<Rightarrow> bool" where
  "truthy v = (case v of None \<Rightarrow> False | Some s \<Rightarrow> s \<noteq> [])"

text \<open>
  The settlement loop \<open>while elapsed < timeout_sec\<close>, which both execute functions
  contain word for word. Each iteration polls the contract status; the loop ends with the
  settled trade, with an exception, or, when the time is used up, with \<open>TimeoutError\<close>.
  The fuel bounds the number of iterations: \<open>None\<close> is a loop that has not returned.
\<close>

fun wait_until_sold ::
  "nat \<Rightarrow> client \<Rightarrow> int \<Rightarrow> real \<Rightarrow> real \<Rightarrow> real \<Rightarrow> nat \<Rightarrow> real \<Rightarrow> (error + ExecutedTrade) option" where
  "wait_until_sold 0 cl cid bp poll_sec timeout_sec k elapsed = None"
| "wait_until_sold (Suc fuel) cl cid bp poll_sec timeout_sec k elapsed =
     (if elapsed < timeout_sec then
        (case on_poc cl cid k of
           Inl e \<Rightarrow> Some (Inl e)
         | Inr poc \<Rightarrow>
             if truthy (poc_error poc) then Some (Inl (RuntimeError ''poc_error''))
             else if poc_is_sold poc then
               (let p = or_default (poc_profit poc) 0;
                    po = or_default (poc_payout poc) 0
                in Some (Inr \<lparr>contract_id = cid, profit = p, buy_price = bp, payout = po,
                               is_win = (0 < p)\<rparr>))
             else wait_until_sold fuel cl cid bp poll_sec timeout_sec (Suc k) (elapsed + poll_sec))
      else Some (Inl TimeoutError))"

text \<open>Steps 1 and 2, proposal and buy, shared in shape by both contract kinds.\<close>

definition propose_and_buy ::
  "client \<Rightarrow> proposal_req \<Rightarrow> real \<Rightarrow> (int \<times> int) option \<Rightarrow> error + (int \<times> real)" where
  "propose_and_buy cl req stk lord =
     (case on_proposal cl req of
        Inl e \<Rightarrow> Inl e
      | Inr proposal \<Rightarrow>
          if truthy (proposal_error proposal) then Inl (RuntimeError ''proposal_error'')
          else if \<not> truthy (proposal_id proposal) then Inl (RuntimeError ''proposal_missing_id'')
          else
            (case on_buy cl \<lparr>req_buy = the (proposal_id proposal), req_price = stk, req_limit_order = lord\<rparr> of
               Inl e \<Rightarrow> Inl e
             | Inr b \<Rightarrow>
                 if truthy (buy_error b) then Inl (RuntimeError ''buy_error'')
                 else (case buy_contract_id b of
                         None \<Rightarrow> Inl (RuntimeError ''buy_missing_contract_id'')
                       | Some cid \<Rightarrow> Inr (cid, or_default (buy_buy_price b) stk))))"

definition symbol_or :: "string option \<Rightarrow> string \<Rightarrow> string" where
  "symbol_or s d = (case s of None \<Rightarrow> d | Some x \<Rightarrow> if x = [] then d else x)"

text \<open>The \<open>proposal_req\<close> dictionaries and the limit order that the two functions build.\<close>

definition rise_fall_proposal ::
  "OrderExecutor \<Rightarrow> string \<Rightarrow> real \<Rightarrow> int \<Rightarrow> string \<Rightarrow> string option \<Rightarrow> proposal_req" where
  "rise_fall_proposal ex sd stk dur dur_unit symb =
     \<lparr>amount = stk, basis = ''stake'', contract_type = sd,
      currency = exec_currency ex, duration = dur, duration_unit = dur_unit,
      multiplier = None, req_symbol = symbol_or symb (exec_symbol ex)\<rparr>"

definition multiplier_limit_order :: "real \<Rightarrow> real \<Rightarrow> int \<times> int" where
  "multiplier_limit_order tp sl = (py_round (max (1 / 100) tp), py_round (max (1 / 100) sl))"

definition multiplier_proposal ::
  "OrderExecutor \<Rightarrow> string \<Rightarrow> real \<Rightarrow> int \<Rightarrow> string \<Rightarrow> int \<Rightarrow> string option \<Rightarrow> proposal_req" where
  "multiplier_proposal ex sd stk dur dur_unit mult symb =
     (let ctype = (if py_upper sd = ''CALL'' then ''MULTUP'' else ''MULTDOWN'');
          (dur_sec, dur_u) =
             (if dur_unit = ''m'' then (dur * 60, ''s'')
              else if dur_unit = ''h'' then (dur * 3600, ''s'')
              else (dur, dur_unit))
      in \<lparr>amount = stk, basis = ''stake'', contract_type = ctype,
          currency = exec_currency ex, duration = dur_sec, duration_unit = dur_u,
          multiplier = Some mult, req_symbol = symbol_or symb (exec_symbol ex)\<rparr>)"

definition execute_rise_fall ::
  "nat \<Rightarrow> client \<Rightarrow> OrderExecutor \<Rightarrow> string \<Rightarrow> real \<Rightarrow> int \<Rightarrow> string \<Rightarrow> string option \<Rightarrow> real \<Rightarrow> real
     \<Rightarrow> (error + ExecutedTrade) option" where
  "execute_rise_fall fuel cl ex sd stk dur dur_unit symb poll_sec timeout_sec =
     (case propose_and_buy cl (rise_fall_proposal ex sd stk dur dur_unit symb) stk None of
        Inl e \<Rightarrow> Some (Inl e)
      | Inr (cid, bp) \<Rightarrow> wait_until_sold fuel cl cid bp poll_sec timeout_sec 0 0)"

definition execute_multiplier ::
  "nat \<Rightarrow> client \<Rightarrow> OrderExecutor \<Rightarrow> string \<Rightarrow> real \<Rightarrow> real \<Rightarrow> real \<Rightarrow> int \<Rightarrow> string \<Rightarrow> int
     \<Rightarrow> string option \<Rightarrow> real \<Rightarrow> real \<Rightarrow> (error + ExecutedTrade) option" where
  "execute_multiplier fuel cl ex sd stk tp sl dur dur_unit mult symb poll_sec timeout_sec =
     (case propose_and_buy cl (multiplier_proposal ex sd stk dur dur_unit mult symb) stk
             (Some (multiplier_limit_order tp sl)) of
        Inl e \<Rightarrow> Some (Inl e)
      | Inr (cid, bp) \<Rightarrow> wait_until_sold fuel cl cid bp poll_sec timeout_sec 0 0)"

text \<open>A brokerage that settles a contract at the third poll with the given profit.\<close>

definition demo_client :: "real \<Rightarrow> client" where
  "demo_client p =
     \<lparr>on_proposal = (\<lambda>r. Inr \<lparr>proposal_error = None, proposal_id = Some ''p1''\<rparr>),
      on_buy = (\<lambda>r. Inr \<lparr>buy_error = None, buy_contract_id = Some 77, buy_buy_price = Some 1\<rparr>),
      on_poc = (\<lambda>cid k. Inr \<lparr>poc_error = None, poc_is_sold = (2 \<le> k),
                               poc_profit = Some p, poc_payout = Some 2\<rparr>)\<rparr>"

definition demo_executor :: OrderExecutor where
  "demo_executor = \<lparr>exec_symbol = ''R_75'', exec_currency = ''USD''\<rparr>"

section \<open>Position sizer\<close>







section \<open>Risk firewall\<close>

record RiskSnapshot =
  balance :: real
  equity :: real
  peak_equity :: real
  daily_pnl :: real
  trades_today :: int
  consecutive_losses :: int
  last_trade_closed_at_iso :: "string option"

text \<open>
  The reason of a decision. Two reasons carry a number that the code formats into the
  reason string (\<open>dd=...\<close>, \<open>loss=...\<close>).
\<close>

datatype risk_reason =
    invalid_peak_equity
  | max_drawdown_total_reached real
  | max_loss_daily_reached real
  | max_trades_daily_reached
  | cooldown_after_consecutive_losses
  | max_consecutive_losses_reached
  | risk_ok

record RiskDecision =
  allowed :: bool
  reason :: risk_reason
  cooldown_remaining_sec :: int

text \<open>\<open>RiskDecision(False, reason)\<close>: the cooldown field takes its default 0.\<close>

definition reject :: "risk_reason \<Rightarrow> RiskDecision" where
  "reject r = \<lparr>allowed = False, reason = r, cooldown_remaining_sec = 0\<rparr>"

record RiskFirewall =
  max_drawdown_total :: real
  max_loss_daily :: real
  max_trades_daily :: int
  max_consecutive_losses :: int
  cooldown_minutes :: int
  day :: int
  daily_start_equity :: "real option"

text \<open>
  The clock. \<open>utc_now\<close> is read up to three times in one \<open>check\<close>: for today's date (a
  day number), as the fallback when the last-close string does not parse, and for the
  elapsed time; times are seconds. Its datetimes are all timezone-aware or all naive
  (\<open>utc_aware\<close>). \<open>datetime.fromisoformat\<close> is a parameter: the time a string denotes and
  whether the datetime carries a UTC offset, or \<open>None\<close> where it raises.
\<close>

record clock =
  utc_today :: int
  utc_now_fallback :: real
  utc_now_elapsed :: real
  utc_aware :: bool

definition reset_daily_if_needed :: "clock \<Rightarrow> RiskFirewall \<Rightarrow> RiskSnapshot \<Rightarrow> RiskFirewall" where
  "reset_daily_if_needed clk fw snapshot =
     (let fw1 = (if utc_today clk \<noteq> day fw
                 then fw\<lparr>day := utc_today clk, daily_start_equity := Some (equity snapshot)\<rparr>
                 else fw)
      in if daily_start_equity fw1 = None
         then fw1\<lparr>daily_start_equity := Some (equity snapshot)\<rparr>
         else fw1)"

text \<open>
  The subtraction \<open>utc_now() - last\<close> stands outside the \<open>try\<close>: between an aware and
  a naive datetime it raises \<open>TypeError\<close>. The fallback \<open>last = utc_now()\<close> has the
  clock's own awareness.
\<close>

definition elapsed_since :: "clock \<Rightarrow> (real \<times> bool) option \<Rightarrow> error + real" where
  "elapsed_since clk parsed =
     (case parsed of
        None \<Rightarrow> Inr (utc_now_elapsed clk - utc_now_fallback clk)
      | Some (t, aware) \<Rightarrow>
          if aware = utc_aware clk then Inr (utc_now_elapsed clk - t) else Inl TypeError)"

definition consecutive_loss_decision ::
  "(string \<Rightarrow> (real \<times> bool) option) \<Rightarrow> clock \<Rightarrow> RiskFirewall \<Rightarrow> RiskSnapshot
     \<Rightarrow> error + RiskDecision" where
  "consecutive_loss_decision fromisoformat clk fw snapshot =
     (case last_trade_closed_at_iso snapshot of
        None \<Rightarrow> Inr (reject max_consecutive_losses_reached)
      | Some last_iso \<Rightarrow>
          if last_iso = [] then Inr (reject max_consecutive_losses_reached)
          else
            (case elapsed_since clk (fromisoformat last_iso) of
               Inl e \<Rightarrow> Inl e
             | Inr elapsed \<Rightarrow>
                 (let cooldown_total = cooldown_minutes fw * 60;
                      remaining = max 0 (py_int (of_int cooldown_total - elapsed))
                  in if 0 < remaining
                     then Inr \<lparr>allowed = False, reason = cooldown_after_consecutive_losses,
                               cooldown_remaining_sec = remaining\<rparr>
                     else Inr (reject max_consecutive_losses_reached))))"

definition check ::
  "(string \<Rightarrow> (real \<times> bool) option) \<Rightarrow> clock \<Rightarrow> RiskFirewall \<Rightarrow> RiskSnapshot
     \<Rightarrow> error + (RiskDecision \<times> RiskFirewall)" where
  "check fromisoformat clk fw0 snapshot =
     (let fw = reset_daily_if_needed clk fw0 snapshot
      in if peak_equity snapshot \<le> 0 then Inr (reject invalid_peak_equity, fw)
         else
           (let dd = (peak_equity snapshot - equity snapshot) / peak_equity snapshot
            in if max_drawdown_total fw \<le> dd then Inr (reject (max_drawdown_total_reached dd), fw)
               else
                 (case daily_start_equity fw of
                    None \<Rightarrow> Inl AssertionError
                  | Some start \<Rightarrow>
                      (let daily_loss = (start - equity snapshot) / max start (1 / 10 ^ 9)
                       in if max_loss_daily fw \<le> daily_loss
                          then Inr (reject (max_loss_daily_reached daily_loss), fw)
                          else if max_trades_daily fw \<le> trades_today snapshot
                          then Inr (reject max_trades_daily_reached, fw)
                          else if max_consecutive_losses fw \<le> consecutive_losses snapshot
                          then (case consecutive_loss_decision fromisoformat clk fw snapshot of
                                  Inl e \<Rightarrow> Inl e
                                | Inr d \<Rightarrow> Inr (d, fw))
                          else Inr (\<lparr>allowed = True, reason = risk_ok,
                                     cooldown_remaining_sec = 0\<rparr>, fw)))))"

text \<open>
  The scenario of the specification: five consecutive losses against a maximum of five,
  the last trade closed ten minutes ago, a cooldown of thirty minutes. The clock is
  timezone-aware; the engine's own records carry the offset \<open>+00:00\<close>, and the second
  snapshot has the same instant written without an offset.
\<close>

definition demo_firewall :: RiskFirewall where
  "demo_firewall = \<lparr>max_drawdown_total = 1 / 10, max_loss_daily = 5 / 100, max_trades_daily = 50,
     max_consecutive_losses = 5, cooldown_minutes = 30, day = 19723, daily_start_equity = None\<rparr>"

definition demo_fromisoformat :: "string \<Rightarrow> (real \<times> bool) option" where
  "demo_fromisoformat s =
     (if s = ''2024-01-01T00:00:00+00:00'' then Some (1704067200, True)
      else if s = ''2024-01-01T00:00:00'' then Some (1704067200, False)
      else None)"

definition demo_clock :: clock where
  "demo_clock = \<lparr>utc_today = 19723, utc_now_fallback = 1704067800, utc_now_elapsed = 1704067800,
     utc_aware = True\<rparr>"

definition demo_snapshot :: RiskSnapshot where
  "demo_snapshot = \<lparr>balance = 1000, equity = 1000, peak_equity = 1000, daily_pnl = 0,
     trades_today = 7, consecutive_losses = 5,
     last_trade_closed_at_iso = Some ''2024-01-01T00:00:00+00:00''\<rparr>"

definition naive_snapshot :: RiskSnapshot where
  "naive_snapshot = demo_snapshot\<lparr>last_trade_closed_at_iso := Some ''2024-01-01T00:00:00''\<rparr>"

section \<open>Transport client: one connection and the reconnection loop\<close>

text \<open>
  \<open>_connect_and_run\<close> opens the socket, starts the reader task, authorises, starts the
  heartbeat task, replays the subscriptions and then waits for the two tasks with
  \<open>asyncio.wait(..., return_when=FIRST_EXCEPTION)\<close>. A \<open>session\<close> records what the
  environment does to one such call. The reader loop is left by \<open>ConnectionClosed\<close>
  (caught: the task returns), by another exception (raised again), or not at all; the
  heartbeat loop has no \<open>return\<close> or \<open>break\<close>, so it is left by the exception of a failed
  ping, or not at all.
\<close>

datatype reader_end = ConnectionClosed | ReaderRaised error | ReaderRunning

datatype heartbeat_end = PingFailed error | HeartbeatRunning

record session =
  connect_error :: "error option"
  authorize :: "error + bool"
  resubscribe_error :: "error option"
  reader :: reader_end
  heartbeat :: heartbeat_end
  cancelled_while_waiting :: bool

datatype task_state = Running | Done_ok | Done_exc error

definition reader_task :: "reader_end \<Rightarrow> task_state" where
  "reader_task r =
     (case r of ConnectionClosed \<Rightarrow> Done_ok | ReaderRaised e \<Rightarrow> Done_exc e | ReaderRunning \<Rightarrow> Running)"

definition heartbeat_task :: "heartbeat_end \<Rightarrow> task_state" where
  "heartbeat_task h = (case h of PingFailed e \<Rightarrow> Done_exc e | HeartbeatRunning \<Rightarrow> Running)"

fun first_exception :: "task_state list \<Rightarrow> error option" where
  "first_exception [] = None"
| "first_exception (Done_exc e # ts) = Some e"
| "first_exception (t # ts) = first_exception ts"

text \<open>
  \<open>asyncio.wait\<close> with \<open>FIRST_EXCEPTION\<close> returns the finished tasks as soon as one of
  them has raised, or when all have finished; \<open>None\<close> is a wait that does not return.
\<close>

definition wait_first_exception :: "task_state list \<Rightarrow> task_state list option" where
  "wait_first_exception tasks =
     (let finished = filter (\<lambda>t. t \<noteq> Running) tasks
      in if first_exception finished \<noteq> None \<or> finished = tasks then Some finished else None)"

datatype connect_outcome = Returned | Raised error | Cancelled

definition connect_and_run :: "session \<Rightarrow> connect_outcome option" where
  "connect_and_run s =
     (case connect_error s of
        Some e \<Rightarrow> Some (Raised e)
      | None \<Rightarrow>
          (case authorize s of
             Inl e \<Rightarrow> Some (Raised e)
           | Inr auth_error \<Rightarrow>
               if auth_error then Some (Raised (OtherError ''Auth error''))
               else
                 (case resubscribe_error s of
                    Some e \<Rightarrow> Some (Raised e)
                  | None \<Rightarrow>
                      if cancelled_while_waiting s then Some Cancelled
                      else
                        (case wait_first_exception
                                [reader_task (reader s), heartbeat_task (heartbeat s)] of
                           None \<Rightarrow> None
                         | Some finished \<Rightarrow>
                             (case first_exception finished of
                                Some e \<Rightarrow> Some (Raised e)
                              | None \<Rightarrow> Some Returned)))))"

text \<open>The session reached the state Connected: socket open and authorised.\<close>

definition connected :: "session \<Rightarrow> bool" where
  "connected s = (connect_error s = None \<and> authorize s = Inr False)"

text \<open>
  One pass of the loop in \<open>_run_forever\<close> reads the stop event, awaits
  \<open>_connect_and_run\<close>, reads the stop event again, draws \<open>random.random()\<close> and sleeps.
  An \<open>attempt\<close> records what the environment supplies in one pass; the loop's observable
  result is the list of delays it sleeps. The list ends where the loop is left or where
  \<open>_connect_and_run\<close> does not return.
\<close>

record attempt =
  stop_before :: bool
  session :: session
  stop_after :: bool
  rnd :: real

fun run_forever_loop :: "real \<Rightarrow> real \<Rightarrow> attempt list \<Rightarrow> real list" where
  "run_forever_loop max_backoff backoff [] = []"
| "run_forever_loop max_backoff backoff (a # rest) =
     (if stop_before a then []
      else
        (case connect_and_run (session a) of
           None \<Rightarrow> []
         | Some Cancelled \<Rightarrow> []
         | Some res \<Rightarrow>
             (let backoff1 = (if res = Returned then 1 else backoff)
              in if stop_after a then []
                 else
                   (let jitter = rnd a * (3 / 10) * backoff1;
                        sleep_for = min max_backoff (backoff1 + jitter)
                    in sleep_for
                         # run_forever_loop max_backoff (min max_backoff (backoff1 * 2)) rest))))"

definition run_forever :: "real \<Rightarrow> attempt list \<Rightarrow> real list" where
  "run_forever max_backoff attempts = run_forever_loop max_backoff 1 attempts"

text \<open>
  Two sessions: one that cannot connect, and one that connects and authorises, runs, and
  ends when the socket closes (the reader returns on \<open>ConnectionClosed\<close> and the next
  ping fails).
\<close>

definition refused_session :: session where
  "refused_session = \<lparr>connect_error = Some (OtherError ''ConnectionRefusedError''),
     authorize = Inr False, resubscribe_error = None, reader = ReaderRunning,
     heartbeat = HeartbeatRunning, cancelled_while_waiting = False\<rparr>"

definition dropped_session :: session where
  "dropped_session = \<lparr>connect_error = None, authorize = Inr False, resubscribe_error = None,
     reader = ConnectionClosed, heartbeat = PingFailed (OtherError ''ConnectionClosed''),
     cancelled_while_waiting = False\<rparr>"

definition try_once :: "session \<Rightarrow> real \<Rightarrow> attempt" where
  "try_once s r = \<lparr>stop_before = False, session = s, stop_after = False, rnd = r\<rparr>"

section \<open>Signal scorer: the trend pullback strategy\<close>

datatype signal_reason =
    indicators_not_ready
  | invalid_price
  | no_trend
  | atr_too_low real
  | ema_spread_too_low real
  | rsi_overbought_skip
  | rsi_oversold_skip
  | rsi_not_in_long_zone
  | rsi_not_in_short_zone
  | signal_ok

record Signal =
  signal_side :: string
  signal_score :: real
  signal_reason :: signal_reason

record TrendPullbackStrategy =
  min_atr_pct :: real
  min_ema_spread_pct :: real
  rsi_long_zone :: "real \<times> real"
  rsi_short_zone :: "real \<times> real"
  rsi_overbought :: real
  rsi_oversold :: real

definition no_signal :: "signal_reason \<Rightarrow> Signal" where
  "no_signal r = \<lparr>signal_side = ''NONE'', signal_score = 0, signal_reason = r\<rparr>"

text \<open>
  The score components, computed once the side and its zone \<open>(lo, hi)\<close> are known. The
  two normalising divisions raise when the floor is zero.
\<close>

definition score_signal ::
  "TrendPullbackStrategy \<Rightarrow> string \<Rightarrow> real \<Rightarrow> real \<Rightarrow> real \<Rightarrow> real \<Rightarrow> real \<Rightarrow> error + Signal" where
  "score_signal st sd lo hi ema_spread_pct atr_pct r =
     (case py_div ema_spread_pct (min_ema_spread_pct st * 4) of
        Inl e \<Rightarrow> Inl e
      | Inr q1 \<Rightarrow>
          (case py_div atr_pct (min_atr_pct st * 4) of
             Inl e \<Rightarrow> Inl e
           | Inr q2 \<Rightarrow>
               (let trend_strength = min 1 q1;
                    vol_strength = min 1 q2;
                    zone_mid = (lo + hi) / 2;
                    zone_half = max ((hi - lo) / 2) (1 / 10 ^ 9);
                    rsi_score = max 0 (1 - \<bar>r - zone_mid\<bar> / zone_half);
                    sc = 45 / 100 * trend_strength + 35 / 100 * rsi_score + 20 / 100 * vol_strength
                in Inr \<lparr>signal_side = sd, signal_score = max 0 (min 1 sc),
                        signal_reason = signal_ok\<rparr>)))"

definition generate :: "TrendPullbackStrategy \<Rightarrow> Candle \<Rightarrow> Indicators \<Rightarrow> error + Signal" where
  "generate st candle ind =
     (if ema_fast ind = None \<or> ema_slow ind = None \<or> atr ind = None \<or> rsi ind = None
      then Inr (no_signal indicators_not_ready)
      else
        (let px = candle_close candle
         in if px \<le> 0 then Inr (no_signal invalid_price)
            else
              (let ef = the (ema_fast ind); es = the (ema_slow ind);
                   a = the (atr ind); r = the (rsi ind);
                   uptrend = (es < ef); downtrend = (ef < es)
               in if \<not> (uptrend \<or> downtrend) then Inr (no_signal no_trend)
                  else
                    (let atr_pct = a / px
                     in if atr_pct < min_atr_pct st then Inr (no_signal (atr_too_low atr_pct))
                        else
                          (let ema_spread_pct = \<bar>ef - es\<bar> / px
                           in if ema_spread_pct < min_ema_spread_pct st
                              then Inr (no_signal (ema_spread_too_low ema_spread_pct))
                              else if rsi_overbought st \<le> r \<and> uptrend
                              then Inr (no_signal rsi_overbought_skip)
                              else if r \<le> rsi_oversold st \<and> downtrend
                              then Inr (no_signal rsi_oversold_skip)
                              else if uptrend then
                                (let (lo, hi) = rsi_long_zone st
                                 in if \<not> (lo \<le> r \<and> r \<le> hi)
                                    then Inr (no_signal rsi_not_in_long_zone)
                                    else score_signal st ''CALL'' lo hi ema_spread_pct atr_pct r)
                              else
                                (let (lo, hi) = rsi_short_zone st
                                 in if \<not> (lo \<le> r \<and> r \<le> hi)
                                    then Inr (no_signal rsi_not_in_short_zone)
                                    else score_signal st ''PUT'' lo hi ema_spread_pct atr_pct r))))))"

text \<open>
  The score as the specification words it, with the zone's half width \<open>(hi - lo) / 2\<close>.
\<close>

definition spec_score :: "real \<Rightarrow> real \<Rightarrow> real \<Rightarrow> real \<Rightarrow> real \<Rightarrow> real \<Rightarrow> real \<Rightarrow> real" where
  "spec_score ema_spread_pct ema_spread_floor atr_pct atr_floor r lo hi =
     max 0 (min 1
       (45 / 100 * min 1 (ema_spread_pct / (4 * ema_spread_floor))
        + 35 / 100 * max 0 (1 - \<bar>r - (lo + hi) / 2\<bar> / ((hi - lo) / 2))
        + 20 / 100 * min 1 (atr_pct / (4 * atr_floor))))"

text \<open>
  The strategy with the constructor's defaults, one with a pullback zone narrower than
  \<open>2e-9\<close>, one with a zero volatility floor, and the market of the scenario: price 1000,
  EMA fast 1001 above EMA slow 1000, ATR 2, RSI 52.5.
\<close>

definition default_strategy :: TrendPullbackStrategy where
  "default_strategy = \<lparr>min_atr_pct = 1 / 1000, min_ema_spread_pct = 5 / 10000,
     rsi_long_zone = (45, 60), rsi_short_zone = (40, 55), rsi_overbought = 70, rsi_oversold = 30\<rparr>"

definition narrow_zone_strategy :: TrendPullbackStrategy where
  "narrow_zone_strategy = default_strategy\<lparr>rsi_long_zone := (50, 50 + 1 / 10 ^ 9)\<rparr>"

definition zero_floor_strategy :: TrendPullbackStrategy where
  "zero_floor_strategy = default_strategy\<lparr>min_atr_pct := 0\<rparr>"

definition scenario_candle :: Candle where
  "scenario_candle = \<lparr>candle_symbol = ''R_75'', candle_timeframe_sec = 60, open_time = 0,
     candle_open = 999, candle_high = 1001, candle_low = 999, candle_close = 1000, volume = 30\<rparr>"

definition scenario_indicators :: "real \<Rightarrow> Indicators" where
  "scenario_indicators r = \<lparr>ema_fast = Some 1001, ema_slow = Some 1000, atr = Some 2, rsi = Some r\<rparr>"

section \<open>Indicator engine\<close>

record IndicatorEngine =
  ema_fast_period :: int
  ema_slow_period :: int
  atr_period :: int
  rsi_period :: int
  bars :: int
  st_ema_fast :: "real option"
  st_ema_slow :: "real option"
  prev_close :: "real option"
  st_atr :: "real option"
  avg_gain :: "real option"
  avg_loss :: "real option"

definition ema :: "real option \<Rightarrow> real \<Rightarrow> int \<Rightarrow> error + real" where
  "ema prev v period =
     (case py_div 2 (of_int period + 1) of
        Inl e \<Rightarrow> Inl e
      | Inr alpha \<Rightarrow> Inr (case prev of None \<Rightarrow> v | Some p \<Rightarrow> alpha * v + (1 - alpha) * p))"

definition validate_periods :: "IndicatorEngine \<Rightarrow> error option" where
  "validate_periods eng =
     (if ema_fast_period eng \<le> 1 then Some ValueError
      else if ema_slow_period eng \<le> 1 then Some ValueError
      else if atr_period eng \<le> 1 then Some ValueError
      else if rsi_period eng \<le> 1 then Some ValueError
      else None)"

definition is_ready :: "IndicatorEngine \<Rightarrow> bool" where
  "is_ready eng = (max (max (ema_slow_period eng) (atr_period eng)) (rsi_period eng) \<le> bars eng)"

text \<open>The blocks of \<open>update\<close>: true range, Wilder smoothing, and the RSI value.\<close>

definition true_range :: "real option \<Rightarrow> Candle \<Rightarrow> real" where
  "true_range pc candle =
     (case pc of
        None \<Rightarrow> candle_high candle - candle_low candle
      | Some p \<Rightarrow> max (max (candle_high candle - candle_low candle) \<bar>candle_high candle - p\<bar>)
                     \<bar>candle_low candle - p\<bar>)"

definition wilder :: "real \<Rightarrow> int \<Rightarrow> real \<Rightarrow> real" where
  "wilder prev period x = (prev * (of_int period - 1) + x) / of_int period"

definition smooth_gain_loss ::
  "IndicatorEngine \<Rightarrow> real \<Rightarrow> real \<Rightarrow> error + (real \<times> real)" where
  "smooth_gain_loss eng gain loss =
     (case avg_gain eng of
        None \<Rightarrow> Inr (gain, loss)
      | Some g \<Rightarrow>
          (case avg_loss eng of
             None \<Rightarrow> Inl TypeError
           | Some l \<Rightarrow> Inr (wilder g (rsi_period eng) gain, wilder l (rsi_period eng) loss)))"

definition rsi_value :: "int \<Rightarrow> int \<Rightarrow> real \<Rightarrow> real \<Rightarrow> error + real" where
  "rsi_value n period g l =
     (if n < period then Inr 50
      else if l = 0 then Inr 100
      else
        (case py_div g (max l (1 / 10 ^ 12)) of
           Inl e \<Rightarrow> Inl e
         | Inr rs \<Rightarrow> (case py_div 100 (1 + rs) of Inl e \<Rightarrow> Inl e | Inr q \<Rightarrow> Inr (100 - q))))"

definition update :: "IndicatorEngine \<Rightarrow> Candle \<Rightarrow> error + (IndicatorEngine \<times> Indicators)" where
  "update eng candle =
     (case validate_periods eng of
        Some e \<Rightarrow> Inl e
      | None \<Rightarrow>
          (let n = bars eng + 1;
               cl = candle_close candle
           in case ema (st_ema_fast eng) cl (ema_fast_period eng) of
                Inl e \<Rightarrow> Inl e
              | Inr ef \<Rightarrow>
                  (case ema (st_ema_slow eng) cl (ema_slow_period eng) of
                     Inl e \<Rightarrow> Inl e
                   | Inr es \<Rightarrow>
                       (let tr = true_range (prev_close eng) candle;
                            new_atr = (case st_atr eng of
                                         None \<Rightarrow> tr
                                       | Some a \<Rightarrow> wilder a (atr_period eng) tr);
                            change = (case prev_close eng of None \<Rightarrow> 0 | Some p \<Rightarrow> cl - p);
                            gain = max change 0;
                            loss = max (- change) 0
                        in case smooth_gain_loss eng gain loss of
                             Inl e \<Rightarrow> Inl e
                           | Inr (g, l) \<Rightarrow>
                               (case rsi_value n (rsi_period eng) g l of
                                  Inl e \<Rightarrow> Inl e
                                | Inr v \<Rightarrow>
                                    Inr (eng\<lparr>bars := n, st_ema_fast := Some ef,
                                              st_ema_slow := Some es, prev_close := Some cl,
                                              st_atr := Some new_atr, avg_gain := Some g,
                                              avg_loss := Some l\<rparr>,
                                         \<lparr>ema_fast = Some ef, ema_slow = Some es,
                                          atr = Some new_atr, rsi = Some v\<rparr>))))))"

text \<open>
  A fresh engine, and feeding it a sequence of closed candles: each step yields the
  engine after the update and the indicators it returned.
\<close>

definition fresh_engine :: "int \<Rightarrow> int \<Rightarrow> int \<Rightarrow> int \<Rightarrow> IndicatorEngine" where
  "fresh_engine fp sp ap rp =
     \<lparr>ema_fast_period = fp, ema_slow_period = sp, atr_period = ap, rsi_period = rp, bars = 0,
      st_ema_fast = None, st_ema_slow = None, prev_close = None, st_atr = None,
      avg_gain = None, avg_loss = None\<rparr>"

fun feed_candles ::
  "IndicatorEngine \<Rightarrow> Candle list \<Rightarrow> error + (IndicatorEngine \<times> Indicators) list" where
  "feed_candles eng [] = Inr []"
| "feed_candles eng (c # cs) =
     (case update eng c of
        Inl e \<Rightarrow> Inl e
      | Inr (eng', ind) \<Rightarrow>
          (case feed_candles eng' cs of
             Inl e \<Rightarrow> Inl e
           | Inr outs \<Rightarrow> Inr ((eng', ind) # outs)))"

definition flat_candle :: "real \<Rightarrow> Candle" where
  "flat_candle p = \<lparr>candle_symbol = ''R_75'', candle_timeframe_sec = 60, open_time = 0,
     candle_open = p, candle_high = p, candle_low = p, candle_close = p, volume = 1\<rparr>"

text \<open>The smoothed averages of a reachable engine are set together and are not negative.\<close>

definition engine_ok :: "IndicatorEngine \<Rightarrow> bool" where
  "engine_ok eng =
     (case avg_gain eng of
        None \<Rightarrow> avg_loss eng = None
      | Some g \<Rightarrow> 0 \<le> g \<and> (case avg_loss eng of None \<Rightarrow> False | Some l \<Rightarrow> 0 \<le> l))"

section \<open>Execution orchestrator: the trade worker\<close>

text \<open>
  The state the worker touches: the queue, the in-flight guard, the trade ledger (ids of
  the rows still open, and the closed rows with their profit) and the log.
\<close>

record worker_state =
  queue :: "TradeIntent queue"
  trade_in_flight :: bool
  open_trades :: "string list"
  closed_trades :: "(string \<times> real) list"
  worker_log :: "log_entry list"

text \<open>
  What the collaborators do while one intent is processed. A call that may raise is an
  \<open>error option\<close> (\<open>None\<close>: it returns) or a sum. \<open>risk_decision\<close> is the repository
  queries followed by \<open>rf.check\<close>, with the decision's \<open>allowed\<close>; \<open>execution\<close> is
  everything from the trade-open event to the return of the executor; \<open>close_log_event\<close>
  is the trade-close event, and \<open>list_trades\<close> the query of the last 200 trades with the
  count of wins and losses.
\<close>

record intent_env =
  ks_load :: "error option"
  ks_enabled :: bool
  risk_decision :: "error + bool"
  dry_run :: bool
  dry_run_log_event :: "error option"
  trade_id :: string
  insert_trade :: "error option"
  execution :: "error + ExecutedTrade"
  close_trade :: "error option"
  close_log_event :: "error option"
  list_trades :: "error option"
  delete_trade :: "error option"
  error_log_event :: "error option"

datatype flow = Fallthrough | Continue | Raise error

definition log_line :: "log_level \<Rightarrow> string \<Rightarrow> worker_state \<Rightarrow> worker_state" where
  "log_line lv msg s = s\<lparr>worker_log := worker_log s @ [(lv, msg)]\<rparr>"

text \<open>The dry-run branch inside the \<open>try\<close>, up to its \<open>continue\<close>.\<close>

definition dry_run_branch :: "worker_state \<Rightarrow> intent_env \<Rightarrow> worker_state \<times> string option \<times> flow" where
  "dry_run_branch s env =
     (let s1 = log_line INFO ''dry_run_skip_execution'' s
      in case dry_run_log_event env of
           Some e \<Rightarrow> (s1, None, Raise e)
         | None \<Rightarrow>
             (let s2 = s1\<lparr>trade_in_flight := False\<rparr>
              in case task_done (queue s2) of
                   Inl e \<Rightarrow> (s2, None, Raise e)
                 | Inr q \<Rightarrow> (s2\<lparr>queue := q\<rparr>, None, Continue)))"

text \<open>The real execution inside the \<open>try\<close>, from the trade id to the performance log.\<close>

definition execute_branch :: "worker_state \<Rightarrow> intent_env \<Rightarrow> worker_state \<times> string option \<times> flow" where
  "execute_branch s env =
     (let tid = trade_id env
      in case insert_trade env of
           Some e \<Rightarrow> (s, Some tid, Raise e)
         | None \<Rightarrow>
             (let s1 = log_line INFO ''trade_execute_start'' (s\<lparr>open_trades := tid # open_trades s\<rparr>)
              in case execution env of
                   Inl e \<Rightarrow> (s1, Some tid, Raise e)
                 | Inr result \<Rightarrow>
                     (case close_trade env of
                        Some e \<Rightarrow> (s1, Some tid, Raise e)
                      | None \<Rightarrow>
                          (let s2 = s1\<lparr>open_trades := removeAll tid (open_trades s1),
                                        closed_trades := (tid, profit result) # closed_trades s1\<rparr>
                           in case close_log_event env of
                                Some e \<Rightarrow> (s2, Some tid, Raise e)
                              | None \<Rightarrow>
                                  (let s3 = log_line INFO ''trade_execute_done'' s2
                                   in case list_trades env of
                                        Some e \<Rightarrow> (s3, Some tid, Raise e)
                                      | None \<Rightarrow> (log_line INFO ''performance'' s3, Some tid,
                                                 Fallthrough))))))"

definition try_body :: "worker_state \<Rightarrow> intent_env \<Rightarrow> worker_state \<times> string option \<times> flow" where
  "try_body s env =
     (case ks_load env of
        Some e \<Rightarrow> (s, None, Raise e)
      | None \<Rightarrow>
          if ks_enabled env
          then (log_line WARNING ''killswitch_enabled_skip_trade'' s, None, Continue)
          else
            (case risk_decision env of
               Inl e \<Rightarrow> (s, None, Raise e)
             | Inr ok \<Rightarrow>
                 if \<not> ok then (log_line WARNING ''risk_block_skip_trade'' s, None, Continue)
                 else if trade_in_flight s
                 then (log_line INFO ''trade_in_flight_skip'' s, None, Continue)
                 else
                   (let s1 = s\<lparr>trade_in_flight := True\<rparr>
                    in if dry_run env then dry_run_branch s1 env else execute_branch s1 env)))"

text \<open>
  The handler of \<open>except Exception\<close>: it logs, deletes the speculative row (an exception
  of the deletion is swallowed, and the row stays) and records the error event, which may
  raise in turn.
\<close>

definition except_handler ::
  "worker_state \<Rightarrow> intent_env \<Rightarrow> string option \<Rightarrow> worker_state \<times> error option" where
  "except_handler s env tid =
     (let s1 = log_line ERROR ''trade_worker_error'' s;
          s2 = (case tid of
                  None \<Rightarrow> s1
                | Some i \<Rightarrow>
                    (case delete_trade env of
                       Some e \<Rightarrow> s1
                     | None \<Rightarrow> s1\<lparr>open_trades := removeAll i (open_trades s1),
                                     closed_trades := filter (\<lambda>r. fst r \<noteq> i) (closed_trades s1)\<rparr>))
      in (s2, error_log_event env))"

text \<open>The \<open>finally\<close> block: release the guard, then \<open>task_done\<close>, which may raise.\<close>

definition finally_block :: "worker_state \<Rightarrow> error + worker_state" where
  "finally_block s =
     (let s1 = s\<lparr>trade_in_flight := False\<rparr>
      in case task_done (queue s1) of Inl e \<Rightarrow> Inl e | Inr q \<Rightarrow> Inr (s1\<lparr>queue := q\<rparr>))"

text \<open>
  One pass of the loop body after \<open>get\<close>. \<open>Inl\<close> is an exception that leaves the
  \<open>while True\<close> loop: the worker task ends. An exception of the \<open>finally\<close> block
  replaces one that the handler raised.
\<close>

definition process_intent :: "worker_state \<Rightarrow> intent_env \<Rightarrow> error + worker_state" where
  "process_intent s env =
     (case try_body s env of
        (s1, tid, fl) \<Rightarrow>
          (case (case fl of Raise e \<Rightarrow> except_handler s1 env tid | _ \<Rightarrow> (s1, None)) of
             (s2, pending) \<Rightarrow>
               (case finally_block s2 of
                  Inl e \<Rightarrow> Inl e
                | Inr s3 \<Rightarrow> (case pending of Some e \<Rightarrow> Inl e | None \<Rightarrow> Inr s3))))"

text \<open>
  The worker: \<open>get\<close> takes the oldest intent (with an empty queue the worker waits), the
  body processes it under the environment of that pass.
\<close>

fun trade_worker :: "worker_state \<Rightarrow> intent_env list \<Rightarrow> error + worker_state" where
  "trade_worker s [] = Inr s"
| "trade_worker s (env # envs) =
     (case items (queue s) of
        [] \<Rightarrow> Inr s
      | intent # rest \<Rightarrow>
          (case process_intent (s\<lparr>queue := (queue s)\<lparr>items := rest\<rparr>\<rparr>) env of
             Inl e \<Rightarrow> Inl e
           | Inr s' \<Rightarrow> trade_worker s' envs))"

text \<open>
  The worker's state once the producer has enqueued the given intents on the empty queue
  of capacity 3, and three environments: dry run (the configuration's default), a real
  execution that fails, and an active kill switch.
\<close>

fun enqueue_all :: "TradeIntent queue \<Rightarrow> TradeIntent list \<Rightarrow> TradeIntent queue" where
  "enqueue_all q [] = q"
| "enqueue_all q (i # rest) =
     (case put_nowait q i of Inl e \<Rightarrow> enqueue_all q rest | Inr q' \<Rightarrow> enqueue_all q' rest)"

definition worker_start :: "TradeIntent list \<Rightarrow> worker_state" where
  "worker_start intents =
     \<lparr>queue = enqueue_all trade_queue intents, trade_in_flight = False, open_trades = [],
      closed_trades = [], worker_log = []\<rparr>"

definition dry_run_env :: intent_env where
  "dry_run_env = \<lparr>ks_load = None, ks_enabled = False, risk_decision = Inr True, dry_run = True,
     dry_run_log_event = None, trade_id = ''t1'', insert_trade = None,
     execution = Inl (RuntimeError ''proposal_error''), close_trade = None,
     close_log_event = None, list_trades = None, delete_trade = None, error_log_event = None\<rparr>"

definition failing_env :: intent_env where
  "failing_env = dry_run_env\<lparr>dry_run := False\<rparr>"

definition killswitch_env :: intent_env where
  "killswitch_env = dry_run_env\<lparr>ks_enabled := True\<rparr>"

chapter \<open>Verified properties\<close>

section \<open>Rounding\<close>







section \<open>Backpressure of the bounded queue\<close>

text \<open>
  Claim C6. When the queue of capacity 3 already holds 3 unconsumed intents, enqueueing
  another one returns at once without an exception: the queue is exactly as before (the
  new intent is dropped) and the only effect is the warning \<open>trade_queue_full_skip\<close>.
\<close>

theorem enqueue_when_full_drops:
  assumes "maxsize q = 3" and "length (items q) = 3"
  shows "enqueue_intent (q, lg) intent = Inr (q, lg @ [(WARNING, ''trade_queue_full_skip'')])"
  using assms by (simp add: enqueue_intent_def put_nowait_def queue_full_def)

theorem enqueue_when_full_drops_witness:
  "enqueue_intent
     (\<lparr>maxsize = 3, items = [demo_intent, demo_intent, demo_intent], unfinished_tasks = 3\<rparr>, [])
     (demo_intent\<lparr>intent_side := ''PUT''\<rparr>)
   = Inr (\<lparr>maxsize = 3, items = [demo_intent, demo_intent, demo_intent], unfinished_tasks = 3\<rparr>,
          [(WARNING, ''trade_queue_full_skip'')])"
  using enqueue_when_full_drops
    [of "\<lparr>maxsize = 3, items = [demo_intent, demo_intent, demo_intent], unfinished_tasks = 3\<rparr>"
        "[]" "demo_intent\<lparr>intent_side := ''PUT''\<rparr>"]
  by simp

section \<open>Candle aggregator: one candle per completed bucket\<close>

lemma floor_time_in_range:
  assumes "tf \<noteq> 0" and "min_timestamp \<le> ep - ep mod tf" and "ep - ep mod tf \<le> max_timestamp"
  shows "floor_time ep tf = Inr (ep - ep mod tf)"
  using assms
  by (simp add: floor_time_def fromtimestamp_def Let_def min_timestamp_def max_timestamp_def
      min_gmtime_def max_gmtime_def)

lemma ticks_in_bucket_Cons:
  "ticks_in_bucket tf (t # ts) k = (if bucket_of tf t = k then 1 else 0) + ticks_in_bucket tf ts k"
  by (simp add: ticks_in_bucket_def)

lemma ticks_in_bucket_later:
  assumes "\<forall>t \<in> set ts. k < bucket_of tf t"
  shows "ticks_in_bucket tf ts k = 0"
proof -
  have "filter (\<lambda>t. bucket_of tf t = k) ts = []"
    using assms by (auto simp: filter_empty_conv)
  then show ?thesis by (simp add: ticks_in_bucket_def)
qed

lemma distinct_remdups_adj_sorted:
  fixes xs :: "int list"
  shows "sorted xs \<Longrightarrow> distinct (remdups_adj xs)"
  by (induction xs rule: remdups_adj.induct) auto

text \<open>The three branches of \<open>update_with_tick\<close> for a tick of the builder's instrument.\<close>

lemma update_first_tick:
  assumes "tick_symbol t = builder_symbol b" and "floor_time (epoch t) (timeframe_sec b) = Inr ot"
    and "current b = None"
  shows "update_with_tick b t = Inr (b\<lparr>current := Some (open_candle b ot t)\<rparr>, None)"
  using assms by (simp add: update_with_tick_def)

lemma update_next_bucket:
  assumes "tick_symbol t = builder_symbol b" and "floor_time (epoch t) (timeframe_sec b) = Inr ot"
    and "current b = Some c" and "open_time c < ot"
  shows "update_with_tick b t = Inr (b\<lparr>current := Some (open_candle b ot t)\<rparr>, Some c)"
  using assms by (simp add: update_with_tick_def)

lemma update_same_bucket:
  assumes "tick_symbol t = builder_symbol b" and "floor_time (epoch t) (timeframe_sec b) = Inr ot"
    and "current b = Some c" and "\<not> open_time c < ot"
  shows "update_with_tick b t =
     Inr (b\<lparr>current := Some (c\<lparr>candle_close := price t,
                                candle_high := max (candle_high c) (price t),
                                candle_low := min (candle_low c) (price t),
                                volume := volume c + 1\<rparr>)\<rparr>, None)"
  using assms by (simp add: update_with_tick_def)

text \<open>The candle invariant holds whatever the order of the ticks.\<close>

lemma update_with_tick_ohlc:
  assumes "update_with_tick b t = Inr (b', out)" and "\<forall>c. current b = Some c \<longrightarrow> ohlc_ok c"
  shows "(\<forall>c. current b' = Some c \<longrightarrow> ohlc_ok c) \<and> (\<forall>c. out = Some c \<longrightarrow> ohlc_ok c)"
proof (cases "tick_symbol t = builder_symbol b")
  case False
  then show ?thesis using assms by (simp add: update_with_tick_def)
next
  case same: True
  then obtain ot where ot: "floor_time (epoch t) (timeframe_sec b) = Inr ot"
    using assms(1) by (cases "floor_time (epoch t) (timeframe_sec b)") (simp_all add: update_with_tick_def)
  have fresh: "ohlc_ok (open_candle b ot t)" by (simp add: ohlc_ok_def open_candle_def)
  show ?thesis
  proof (cases "current b")
    case None
    then show ?thesis
      using assms(1) fresh by (auto simp: update_first_tick [OF same ot None])
  next
    case (Some c)
    then have c: "ohlc_ok c" using assms(2) by simp
    show ?thesis
    proof (cases "open_time c < ot")
      case True
      then show ?thesis
        using assms(1) fresh c by (auto simp: update_next_bucket [OF same ot Some True])
    next
      case False
      have "ohlc_ok (c\<lparr>candle_close := price t, candle_high := max (candle_high c) (price t),
                        candle_low := min (candle_low c) (price t), volume := volume c + 1\<rparr>)"
        using c by (simp add: ohlc_ok_def min_le_iff_disj le_max_iff_disj)
      then show ?thesis
        using assms(1) by (auto simp: update_same_bucket [OF same ot Some False])
    qed
  qed
qed

lemma feed_ticks_ohlc:
  assumes "feed_ticks b ticks = Inr (b', cs)" and "\<forall>c. current b = Some c \<longrightarrow> ohlc_ok c"
  shows "\<forall>c \<in> set cs. ohlc_ok c"
  using assms
proof (induction ticks arbitrary: b cs)
  case Nil
  then show ?case by simp
next
  case (Cons t ts)
  obtain b1 out where up: "update_with_tick b t = Inr (b1, out)"
    using Cons.prems(1) by (cases "update_with_tick b t") auto
  obtain cs1 where rest: "feed_ticks b1 ts = Inr (b', cs1)"
    and cs: "cs = (case out of None \<Rightarrow> cs1 | Some c \<Rightarrow> c # cs1)"
    using Cons.prems(1) up by (cases "feed_ticks b1 ts") auto
  note step = update_with_tick_ohlc [OF up Cons.prems(2)]
  have "\<forall>c \<in> set cs1. ohlc_ok c"
    using Cons.IH [OF rest] step by blast
  then show ?case using step cs by (cases out) auto
qed

text \<open>
  Ticks in bucket order, fed to a builder whose open candle is \<open>c0\<close>: the candles closed
  are those of the distinct buckets but the last, and each one counts the ticks of its
  bucket, the first one on top of what \<open>c0\<close> had counted.
\<close>

lemma feed_ticks_open:
  assumes "0 < tf" and "timeframe_sec b = tf" and "builder_symbol b = s" and "current b = Some c0"
    and "\<forall>t \<in> set ticks. tick_symbol t = s \<and> min_timestamp \<le> bucket_of tf t
                            \<and> bucket_of tf t \<le> max_timestamp"
    and "sorted (open_time c0 # map (bucket_of tf) ticks)"
  shows "\<exists>b' cs. feed_ticks b ticks = Inr (b', cs)
     \<and> map open_time cs = butlast (remdups_adj (open_time c0 # map (bucket_of tf) ticks))
     \<and> (\<forall>c \<in> set cs. volume c = (if open_time c = open_time c0 then volume c0 else 0)
                                       + ticks_in_bucket tf ticks (open_time c))"
  using assms
proof (induction ticks arbitrary: b c0)
  case Nil
  then show ?case by simp
next
  case (Cons t ts)
  let ?k = "bucket_of tf t"
  let ?ks = "map (bucket_of tf) ts"
  have same: "tick_symbol t = builder_symbol b" using Cons.prems(3,5) by simp
  have ft: "floor_time (epoch t) (timeframe_sec b) = Inr ?k"
    unfolding bucket_of_def Cons.prems(2)
    using Cons.prems(1,5) by (intro floor_time_in_range) (simp_all add: bucket_of_def)
  have le: "open_time c0 \<le> ?k" and later: "\<forall>x \<in> set ?ks. ?k \<le> x"
    and sorted_tail: "sorted (?k # ?ks)"
    using Cons.prems(6) by auto
  have rest_ok: "\<forall>t \<in> set ts. tick_symbol t = s \<and> min_timestamp \<le> bucket_of tf t
                            \<and> bucket_of tf t \<le> max_timestamp"
    using Cons.prems(5) by simp
  show ?case
  proof (cases "open_time c0 < ?k")
    case True
    let ?c1 = "open_candle b ?k t"
    let ?b1 = "b\<lparr>current := Some ?c1\<rparr>"
    have up: "update_with_tick b t = Inr (?b1, Some c0)"
      by (rule update_next_bucket [OF same ft Cons.prems(4) True])
    have c1: "open_time ?c1 = ?k" "volume ?c1 = 1" by (simp_all add: open_candle_def)
    have "\<exists>b' cs. feed_ticks ?b1 ts = Inr (b', cs)
       \<and> map open_time cs = butlast (remdups_adj (open_time ?c1 # ?ks))
       \<and> (\<forall>c \<in> set cs. volume c = (if open_time c = open_time ?c1 then volume ?c1 else 0)
                                       + ticks_in_bucket tf ts (open_time c))"
      using Cons.prems(1,2,3) rest_ok sorted_tail by (intro Cons.IH) (simp_all add: c1)
    then obtain b' cs where run: "feed_ticks ?b1 ts = Inr (b', cs)"
      and times: "map open_time cs = butlast (remdups_adj (?k # ?ks))"
      and vols: "\<forall>c \<in> set cs. volume c = (if open_time c = ?k then 1 else 0)
                                       + ticks_in_bucket tf ts (open_time c)"
      unfolding c1 by blast
    have res: "feed_ticks b (t # ts) = Inr (b', c0 # cs)"
      using up run by simp
    have times': "map open_time (c0 # cs) = butlast (remdups_adj (open_time c0 # map (bucket_of tf) (t # ts)))"
      using True times by simp
    have none_before: "ticks_in_bucket tf (t # ts) (open_time c0) = 0"
      using True later by (intro ticks_in_bucket_later) auto
    have after: "open_time c0 < open_time c" if "c \<in> set cs" for c
    proof -
      have "open_time c \<in> set (map open_time cs)" using that by simp
      then have "open_time c \<in> set (?k # ?ks)"
        unfolding times using in_set_butlastD [of "open_time c" "remdups_adj (?k # ?ks)"]
        by (simp only: remdups_adj_set)
      then have "?k \<le> open_time c" using later by auto
      then show ?thesis using True by simp
    qed
    have vols': "volume c = (if open_time c = open_time c0 then volume c0 else 0)
                   + ticks_in_bucket tf (t # ts) (open_time c)"
      if "c \<in> set (c0 # cs)" for c
    proof (cases "c = c0")
      case True
      then show ?thesis using none_before by simp
    next
      case False
      then have mem: "c \<in> set cs" using that by simp
      have "open_time c \<noteq> open_time c0" using after [OF mem] by simp
      then show ?thesis
        using vols mem by (simp add: ticks_in_bucket_Cons eq_commute)
    qed
    show ?thesis using res times' vols' by blast
  next
    case False
    then have eq: "?k = open_time c0" using le by simp
    let ?c1 = "c0\<lparr>candle_close := price t, candle_high := max (candle_high c0) (price t),
                   candle_low := min (candle_low c0) (price t), volume := volume c0 + 1\<rparr>"
    let ?b1 = "b\<lparr>current := Some ?c1\<rparr>"
    have up: "update_with_tick b t = Inr (?b1, None)"
      by (rule update_same_bucket [OF same ft Cons.prems(4) False])
    have c1: "open_time ?c1 = open_time c0" "volume ?c1 = volume c0 + 1" by simp_all
    have "\<exists>b' cs. feed_ticks ?b1 ts = Inr (b', cs)
       \<and> map open_time cs = butlast (remdups_adj (open_time ?c1 # ?ks))
       \<and> (\<forall>c \<in> set cs. volume c = (if open_time c = open_time ?c1 then volume ?c1 else 0)
                                       + ticks_in_bucket tf ts (open_time c))"
      using Cons.prems(1,2,3) rest_ok sorted_tail eq by (intro Cons.IH) simp_all
    then obtain b' cs where run: "feed_ticks ?b1 ts = Inr (b', cs)"
      and times: "map open_time cs = butlast (remdups_adj (open_time c0 # ?ks))"
      and vols: "\<forall>c \<in> set cs. volume c = (if open_time c = open_time c0 then volume c0 + 1 else 0)
                                       + ticks_in_bucket tf ts (open_time c)"
      unfolding c1 by blast
    have res: "feed_ticks b (t # ts) = Inr (b', cs)"
      using up run by simp
    have times': "map open_time cs = butlast (remdups_adj (open_time c0 # map (bucket_of tf) (t # ts)))"
      using eq times by simp
    have vols': "volume c = (if open_time c = open_time c0 then volume c0 else 0)
                   + ticks_in_bucket tf (t # ts) (open_time c)"
      if "c \<in> set cs" for c
      using vols that eq by (simp add: ticks_in_bucket_Cons eq_commute)
    show ?thesis using res times' vols' by blast
  qed
qed

text \<open>The same from a new builder: the first tick opens the first candle.\<close>

lemma feed_ticks_new:
  assumes "0 < tf"
    and "\<forall>t \<in> set ticks. tick_symbol t = s \<and> min_timestamp \<le> bucket_of tf t
                            \<and> bucket_of tf t \<le> max_timestamp"
    and "sorted (map (bucket_of tf) ticks)"
  shows "\<exists>b' cs. feed_ticks (new_builder s tf) ticks = Inr (b', cs)
     \<and> map open_time cs = butlast (remdups_adj (map (bucket_of tf) ticks))
     \<and> (\<forall>c \<in> set cs. volume c = ticks_in_bucket tf ticks (open_time c))"
proof (cases ticks)
  case Nil
  then show ?thesis by simp
next
  case (Cons t ts)
  let ?b = "new_builder s tf"
  let ?k = "bucket_of tf t"
  let ?c1 = "open_candle ?b ?k t"
  let ?b1 = "?b\<lparr>current := Some ?c1\<rparr>"
  have flds: "timeframe_sec ?b = tf" "builder_symbol ?b = s" "current ?b = None"
    by (simp_all add: new_builder_def)
  have same: "tick_symbol t = builder_symbol ?b" using assms(2) Cons flds by simp
  have ft: "floor_time (epoch t) (timeframe_sec ?b) = Inr ?k"
    unfolding bucket_of_def flds
    using assms(1,2) Cons by (intro floor_time_in_range) (simp_all add: bucket_of_def)
  have up: "update_with_tick ?b t = Inr (?b1, None)"
    by (rule update_first_tick [OF same ft flds(3)])
  have c1: "open_time ?c1 = ?k" "volume ?c1 = 1" by (simp_all add: open_candle_def)
  have "\<exists>b' cs. feed_ticks ?b1 ts = Inr (b', cs)
     \<and> map open_time cs = butlast (remdups_adj (open_time ?c1 # map (bucket_of tf) ts))
     \<and> (\<forall>c \<in> set cs. volume c = (if open_time c = open_time ?c1 then volume ?c1 else 0)
                                     + ticks_in_bucket tf ts (open_time c))"
    using assms Cons by (intro feed_ticks_open [where s = s]) (simp_all add: new_builder_def open_candle_def)
  then obtain b' cs where run: "feed_ticks ?b1 ts = Inr (b', cs)"
    and times: "map open_time cs = butlast (remdups_adj (?k # map (bucket_of tf) ts))"
    and vols: "\<forall>c \<in> set cs. volume c = (if open_time c = ?k then 1 else 0)
                                     + ticks_in_bucket tf ts (open_time c)"
    unfolding c1 by blast
  have res: "feed_ticks ?b ticks = Inr (b', cs)" using up run Cons by simp
  have times': "map open_time cs = butlast (remdups_adj (map (bucket_of tf) ticks))"
    using times Cons by simp
  have vols': "\<forall>c \<in> set cs. volume c = ticks_in_bucket tf ticks (open_time c)"
    using vols Cons by (simp add: ticks_in_bucket_Cons eq_commute)
  show ?thesis using res times' vols' by blast
qed

text \<open>
  Claim C2, as first stated, fails for a tick that arrives late. The ticks at 60 s, 0 s and
  120 s give one closed candle, for the bucket 60, with volume 2: the late tick of bucket 0
  is counted in it, and the completed bucket 0 has no candle.
\<close>

theorem late_tick_counterexample:
  "feed_ticks (new_builder ''R_75'' 60) late_ticks
     = Inr (\<lparr>builder_symbol = ''R_75'', timeframe_sec = 60,
              current = Some \<lparr>candle_symbol = ''R_75'', candle_timeframe_sec = 60, open_time = 120,
                               candle_open = 12, candle_high = 12, candle_low = 12,
                               candle_close = 12, volume = 1\<rparr>\<rparr>,
            [\<lparr>candle_symbol = ''R_75'', candle_timeframe_sec = 60, open_time = 60,
              candle_open = 10, candle_high = 11, candle_low = 10, candle_close = 11,
              volume = 2\<rparr>])
   \<and> ticks_in_bucket 60 late_ticks 60 = 1
   \<and> ticks_in_bucket 60 late_ticks 0 = 1"
  by code_simp

text \<open>
  Claim C2, amended. Every candle that \<open>update_with_tick\<close> emits satisfies
  \<open>low \<le> open \<le> high\<close> and \<open>low \<le> close \<le> high\<close>, whatever the ticks. When the
  timeframe is positive, the ticks are of the builder's instrument with bucket starts that
  are representable datetimes, and no tick falls in an earlier bucket than the tick before
  it, then no tick raises, exactly one candle is emitted per completed bucket (the
  distinct buckets but the last, in order), and the volume of each emitted candle is the
  number of ticks observed in its bucket.
\<close>

theorem candles_of_ordered_ticks:
  "(\<forall>b cs. feed_ticks (new_builder s tf) ticks = Inr (b, cs) \<longrightarrow> (\<forall>c \<in> set cs. ohlc_ok c))
   \<and> (0 < tf
        \<and> (\<forall>t \<in> set ticks. tick_symbol t = s \<and> min_timestamp \<le> bucket_of tf t
                               \<and> bucket_of tf t \<le> max_timestamp)
        \<and> sorted (map (bucket_of tf) ticks) \<longrightarrow>
       (\<exists>b cs. feed_ticks (new_builder s tf) ticks = Inr (b, cs)
          \<and> map open_time cs = butlast (remdups_adj (map (bucket_of tf) ticks))
          \<and> distinct (map open_time cs)
          \<and> (\<forall>c \<in> set cs. ohlc_ok c \<and> volume c = ticks_in_bucket tf ticks (open_time c))))"
proof (rule conjI)
  have start: "\<forall>c. current (new_builder s tf) = Some c \<longrightarrow> ohlc_ok c"
    by (simp add: new_builder_def)
  show any: "\<forall>b cs. feed_ticks (new_builder s tf) ticks = Inr (b, cs) \<longrightarrow> (\<forall>c \<in> set cs. ohlc_ok c)"
    using feed_ticks_ohlc [OF _ start] by blast
  show "0 < tf
        \<and> (\<forall>t \<in> set ticks. tick_symbol t = s \<and> min_timestamp \<le> bucket_of tf t
                               \<and> bucket_of tf t \<le> max_timestamp)
        \<and> sorted (map (bucket_of tf) ticks) \<longrightarrow>
       (\<exists>b cs. feed_ticks (new_builder s tf) ticks = Inr (b, cs)
          \<and> map open_time cs = butlast (remdups_adj (map (bucket_of tf) ticks))
          \<and> distinct (map open_time cs)
          \<and> (\<forall>c \<in> set cs. ohlc_ok c \<and> volume c = ticks_in_bucket tf ticks (open_time c)))"
  proof (rule impI)
    assume h: "0 < tf
        \<and> (\<forall>t \<in> set ticks. tick_symbol t = s \<and> min_timestamp \<le> bucket_of tf t
                               \<and> bucket_of tf t \<le> max_timestamp)
        \<and> sorted (map (bucket_of tf) ticks)"
    then have srt: "sorted (map (bucket_of tf) ticks)" by blast
    obtain b cs where run: "feed_ticks (new_builder s tf) ticks = Inr (b, cs)"
      and times: "map open_time cs = butlast (remdups_adj (map (bucket_of tf) ticks))"
      and vols: "\<forall>c \<in> set cs. volume c = ticks_in_bucket tf ticks (open_time c)"
      using feed_ticks_new [of tf ticks s] h by blast
    have "distinct (remdups_adj (map (bucket_of tf) ticks))"
      using srt by (rule distinct_remdups_adj_sorted)
    then have dist: "distinct (map open_time cs)"
      unfolding times by (rule distinct_butlast)
    have ok: "\<forall>c \<in> set cs. ohlc_ok c" using any run by blast
    show "\<exists>b cs. feed_ticks (new_builder s tf) ticks = Inr (b, cs)
          \<and> map open_time cs = butlast (remdups_adj (map (bucket_of tf) ticks))
          \<and> distinct (map open_time cs)
          \<and> (\<forall>c \<in> set cs. ohlc_ok c \<and> volume c = ticks_in_bucket tf ticks (open_time c))"
      using run times dist ok vols by blast
  qed
qed

theorem candles_of_ordered_ticks_witness:
  "\<exists>b cs. feed_ticks (new_builder ''R_75'' 60) ordered_ticks = Inr (b, cs)
     \<and> map open_time cs = [0, 60]
     \<and> (\<forall>c \<in> set cs. ohlc_ok c \<and> volume c = ticks_in_bucket 60 ordered_ticks (open_time c))
     \<and> ticks_in_bucket 60 ordered_ticks 0 = 3 \<and> ticks_in_bucket 60 ordered_ticks 60 = 1"
proof -
  have buckets: "map (bucket_of 60) ordered_ticks = [0, 0, 0, 60, 120]"
    by (simp add: ordered_ticks_def tick_at_def bucket_of_def)
  have h: "(0::int) < 60
        \<and> (\<forall>t \<in> set ordered_ticks. tick_symbol t = ''R_75'' \<and> min_timestamp \<le> bucket_of 60 t
                               \<and> bucket_of 60 t \<le> max_timestamp)
        \<and> sorted (map (bucket_of 60) ordered_ticks)"
    unfolding buckets
    by (simp add: ordered_ticks_def tick_at_def bucket_of_def min_timestamp_def max_timestamp_def)
  have counts: "ticks_in_bucket 60 ordered_ticks 0 = 3" "ticks_in_bucket 60 ordered_ticks 60 = 1"
    by (simp_all add: ticks_in_bucket_def ordered_ticks_def tick_at_def bucket_of_def)
  note t = candles_of_ordered_ticks [of "''R_75''" 60 ordered_ticks, THEN conjunct2, rule_format, OF h]
  then obtain b cs where run: "feed_ticks (new_builder ''R_75'' 60) ordered_ticks = Inr (b, cs)"
    and times: "map open_time cs = butlast (remdups_adj (map (bucket_of 60) ordered_ticks))"
    and rest: "\<forall>c \<in> set cs. ohlc_ok c \<and> volume c = ticks_in_bucket 60 ordered_ticks (open_time c)"
    by blast
  have times': "map open_time cs = [0, 60]" using times unfolding buckets by simp
  show ?thesis
    by (rule exI [of _ b], rule exI [of _ cs]) (intro conjI run times' rest counts)
qed

section \<open>Settlement: the win flag\<close>

lemma wait_until_sold_win:
  "wait_until_sold fuel cl cid bp poll_sec timeout_sec k elapsed = Some (Inr t)
     \<Longrightarrow> is_win t = (0 < profit t)"
proof (induction fuel arbitrary: k elapsed)
  case 0
  then show ?case by simp
next
  case (Suc fuel)
  then show ?case
    by (auto simp: Let_def split: if_splits sum.splits)
qed

text \<open>
  With a positive polling interval the settlement loop returns: after enough polls the
  elapsed time reaches the timeout.
\<close>

lemma wait_until_sold_bounded:
  "timeout_sec \<le> elapsed + real n * poll_sec
     \<Longrightarrow> wait_until_sold (Suc n) cl cid bp poll_sec timeout_sec k elapsed \<noteq> None"
proof (induction n arbitrary: k elapsed)
  case 0
  then show ?case by (simp split: sum.splits)
next
  case (Suc n)
  have "timeout_sec \<le> (elapsed + poll_sec) + real n * poll_sec"
    using Suc.prems by (simp add: algebra_simps)
  then have "wait_until_sold (Suc n) cl cid bp poll_sec timeout_sec (Suc k) (elapsed + poll_sec) \<noteq> None"
    by (rule Suc.IH)
  then show ?case
    by (subst wait_until_sold.simps) (simp split: sum.splits add: Let_def)
qed

lemma wait_until_sold_returns:
  assumes "0 < poll_sec"
  shows "\<exists>fuel. wait_until_sold fuel cl cid bp poll_sec timeout_sec k elapsed \<noteq> None"
proof -
  obtain n where "timeout_sec - elapsed < real n * poll_sec"
    using reals_Archimedean3 [OF assms] by blast
  then have "timeout_sec \<le> elapsed + real n * poll_sec" by simp
  then show ?thesis using wait_until_sold_bounded by blast
qed

lemma execute_rise_fall_returns:
  assumes "0 < poll_sec"
  shows "\<exists>fuel. execute_rise_fall fuel cl ex sd stk dur du symb poll_sec timeout_sec \<noteq> None"
proof (cases "propose_and_buy cl (rise_fall_proposal ex sd stk dur du symb) stk None")
  case (Inl e)
  then show ?thesis by (simp add: execute_rise_fall_def)
next
  case (Inr p)
  obtain cid bp where p: "p = (cid, bp)" by (cases p)
  obtain fuel where "wait_until_sold fuel cl cid bp poll_sec timeout_sec 0 0 \<noteq> None"
    using wait_until_sold_returns [OF assms] by blast
  then have "execute_rise_fall fuel cl ex sd stk dur du symb poll_sec timeout_sec \<noteq> None"
    using Inr p by (simp add: execute_rise_fall_def)
  then show ?thesis by blast
qed

lemma execute_multiplier_returns:
  assumes "0 < poll_sec"
  shows "\<exists>fuel. execute_multiplier fuel cl ex sd stk tp sl dur du mult symb poll_sec timeout_sec \<noteq> None"
proof (cases "propose_and_buy cl (multiplier_proposal ex sd stk dur du mult symb) stk
                (Some (multiplier_limit_order tp sl))")
  case (Inl e)
  then show ?thesis by (simp add: execute_multiplier_def)
next
  case (Inr p)
  obtain cid bp where p: "p = (cid, bp)" by (cases p)
  obtain fuel where "wait_until_sold fuel cl cid bp poll_sec timeout_sec 0 0 \<noteq> None"
    using wait_until_sold_returns [OF assms] by blast
  then have "execute_multiplier fuel cl ex sd stk tp sl dur du mult symb poll_sec timeout_sec \<noteq> None"
    using Inr p by (simp add: execute_multiplier_def)
  then show ?thesis by blast
qed

text \<open>
  Claim C10. Every settled contract that \<open>execute_rise_fall\<close> or \<open>execute_multiplier\<close>
  returns has \<open>is_win\<close> true exactly when its profit is strictly positive; a settled
  contract with profit 0 is a loss.
\<close>

theorem executed_trade_win_flag:
  "(execute_rise_fall fuel cl ex sd stk dur du symb poll_sec timeout_sec = Some (Inr t)
      \<longrightarrow> (is_win t \<longleftrightarrow> 0 < profit t) \<and> (profit t = 0 \<longrightarrow> \<not> is_win t))
   \<and> (execute_multiplier fuel cl ex sd stk tp sl dur du mult symb poll_sec timeout_sec = Some (Inr t')
      \<longrightarrow> (is_win t' \<longleftrightarrow> 0 < profit t') \<and> (profit t' = 0 \<longrightarrow> \<not> is_win t'))"
proof -
  have rf: "is_win t = (0 < profit t)"
    if "execute_rise_fall fuel cl ex sd stk dur du symb poll_sec timeout_sec = Some (Inr t)"
    using that wait_until_sold_win
    by (auto simp: execute_rise_fall_def split: sum.splits prod.splits)
  have mu: "is_win t' = (0 < profit t')"
    if "execute_multiplier fuel cl ex sd stk tp sl dur du mult symb poll_sec timeout_sec = Some (Inr t')"
    using that wait_until_sold_win
    by (auto simp: execute_multiplier_def Let_def split: sum.splits prod.splits)
  show ?thesis using rf mu by auto
qed

theorem executed_trade_win_flag_witness:
  "execute_rise_fall 5 (demo_client 0) demo_executor ''CALL'' 1 1 ''m'' None 1 180
     = Some (Inr \<lparr>contract_id = 77, profit = 0, buy_price = 1, payout = 2, is_win = False\<rparr>)
   \<and> execute_multiplier 5 (demo_client (1 / 2)) demo_executor ''call'' 1 (1 / 2) (1 / 2) 15 ''m'' 10 None 1 86400
     = Some (Inr \<lparr>contract_id = 77, profit = 1 / 2, buy_price = 1, payout = 2, is_win = True\<rparr>)
   \<and> \<not> is_win \<lparr>contract_id = 77, profit = 0, buy_price = 1, payout = 2, is_win = False\<rparr>
   \<and> is_win \<lparr>contract_id = 77, profit = 1 / 2, buy_price = 1, payout = 2, is_win = True\<rparr>"
proof -
  have a: "execute_rise_fall 5 (demo_client 0) demo_executor ''CALL'' 1 1 ''m'' None 1 180
     = Some (Inr \<lparr>contract_id = 77, profit = 0, buy_price = 1, payout = 2, is_win = False\<rparr>)"
    by code_simp
  have b: "execute_multiplier 5 (demo_client (1 / 2)) demo_executor ''call'' 1 (1 / 2) (1 / 2) 15 ''m'' 10 None 1 86400
     = Some (Inr \<lparr>contract_id = 77, profit = 1 / 2, buy_price = 1, payout = 2, is_win = True\<rparr>)"
    by code_simp
  show ?thesis
    using a b
      executed_trade_win_flag
        [where fuel = 5 and cl = "demo_client 0" and ex = demo_executor and sd = "''CALL''"
           and stk = 1 and dur = 1 and du = "''m''" and symb = None and poll_sec = 1
           and timeout_sec = 180
           and t = "\<lparr>contract_id = 77, profit = 0, buy_price = 1, payout = 2, is_win = False\<rparr>"]
      executed_trade_win_flag
        [where fuel = 5 and cl = "demo_client (1 / 2)" and ex = demo_executor and sd = "''call''"
           and stk = 1 and tp = "1 / 2" and sl = "1 / 2" and dur = 15 and du = "''m''"
           and mult = 10 and symb = None and poll_sec = 1 and timeout_sec = 86400
           and t' = "\<lparr>contract_id = 77, profit = 1 / 2, buy_price = 1, payout = 2, is_win = True\<rparr>"]
    by simp
qed

section \<open>Position sizer: the stake\<close>








section \<open>Risk firewall: order of the limits\<close>

lemma reset_daily_fields:
  "max_drawdown_total (reset_daily_if_needed clk fw snap) = max_drawdown_total fw"
  "max_loss_daily (reset_daily_if_needed clk fw snap) = max_loss_daily fw"
  "max_trades_daily (reset_daily_if_needed clk fw snap) = max_trades_daily fw"
  "max_consecutive_losses (reset_daily_if_needed clk fw snap) = max_consecutive_losses fw"
  "cooldown_minutes (reset_daily_if_needed clk fw snap) = cooldown_minutes fw"
  by (simp_all add: reset_daily_if_needed_def Let_def)

lemma reset_daily_start:
  "\<exists>start. daily_start_equity (reset_daily_if_needed clk fw snap) = Some start"
  by (simp add: reset_daily_if_needed_def Let_def)

lemma reset_daily_day: "day (reset_daily_if_needed clk fw snap) = utc_today clk"
  by (simp add: reset_daily_if_needed_def Let_def)

text \<open>The reset depends on the clock's date and the snapshot's equity only.\<close>

lemma reset_daily_cong:
  assumes "utc_today clk' = utc_today clk" and "equity snap' = equity snap"
  shows "reset_daily_if_needed clk' fw snap' = reset_daily_if_needed clk fw snap"
  using assms by (simp add: reset_daily_if_needed_def Let_def)

lemma reset_daily_idem:
  assumes "utc_today clk' = utc_today clk"
  shows "reset_daily_if_needed clk' (reset_daily_if_needed clk fw snap) snap'
           = reset_daily_if_needed clk fw snap"
proof -
  obtain start where "daily_start_equity (reset_daily_if_needed clk fw snap) = Some start"
    using reset_daily_start by blast
  then show ?thesis
    using assms reset_daily_day [of clk fw snap]
    by (simp add: reset_daily_if_needed_def [of clk' "reset_daily_if_needed clk fw snap"] Let_def)
qed

lemma elapsed_since_parsed:
  "elapsed_since clk (Some (t, utc_aware clk)) = Inr (utc_now_elapsed clk - t)"
  by (simp add: elapsed_since_def)

lemma elapsed_since_unparsed:
  "elapsed_since clk None = Inr (utc_now_elapsed clk - utc_now_fallback clk)"
  by (simp add: elapsed_since_def)

lemma elapsed_since_mismatch:
  "aw \<noteq> utc_aware clk \<Longrightarrow> elapsed_since clk (Some (t, aw)) = Inl TypeError"
  by (simp add: elapsed_since_def)

lemma elapsed_since_error: "elapsed_since clk parsed = Inl e \<Longrightarrow> e = TypeError"
  by (auto simp: elapsed_since_def split: option.splits if_splits)

lemma consecutive_loss_decision_rejects:
  "consecutive_loss_decision parse clk fw snap = Inr d \<Longrightarrow> \<not> allowed d"
  by (auto simp: consecutive_loss_decision_def reject_def Let_def
      split: option.splits if_splits sum.splits)

lemma consecutive_loss_decision_fields:
  "consecutive_loss_decision parse clk (reset_daily_if_needed clk0 fw snap0) snap
     = consecutive_loss_decision parse clk fw snap"
  by (simp add: consecutive_loss_decision_def reset_daily_fields split: option.splits sum.splits)

lemma no_last_close:
  assumes "last_trade_closed_at_iso snap = None \<or> last_trade_closed_at_iso snap = Some []"
  shows "consecutive_loss_decision parse clk fw snap = Inr (reject max_consecutive_losses_reached)"
  using assms by (auto simp: consecutive_loss_decision_def)

lemma last_close_mismatch:
  assumes "last_trade_closed_at_iso snap = Some last_iso" and "last_iso \<noteq> []"
    and "parse last_iso = Some (t, aw)" and "aw \<noteq> utc_aware clk"
  shows "consecutive_loss_decision parse clk fw snap = Inl TypeError"
  using assms by (simp add: consecutive_loss_decision_def elapsed_since_def)

lemma cooldown_positive:
  assumes "last_trade_closed_at_iso snap = Some last_iso" and "last_iso \<noteq> []"
    and "elapsed_since clk (parse last_iso) = Inr el"
    and "0 < py_int (of_int (cooldown_minutes fw * 60) - el)"
  shows "consecutive_loss_decision parse clk fw snap
     = Inr \<lparr>allowed = False, reason = cooldown_after_consecutive_losses,
            cooldown_remaining_sec = py_int (of_int (cooldown_minutes fw * 60) - el)\<rparr>"
  using assms by (simp add: consecutive_loss_decision_def Let_def)

lemma cooldown_over:
  assumes "last_trade_closed_at_iso snap = Some last_iso" and "last_iso \<noteq> []"
    and "elapsed_since clk (parse last_iso) = Inr el"
    and "py_int (of_int (cooldown_minutes fw * 60) - el) \<le> 0"
  shows "consecutive_loss_decision parse clk fw snap = Inr (reject max_consecutive_losses_reached)"
  using assms by (simp add: consecutive_loss_decision_def Let_def)

lemma cooldown_scenario:
  assumes "last_trade_closed_at_iso snap = Some last_iso" and "last_iso \<noteq> []"
    and "parse last_iso = Some (t, utc_aware clk)"
    and "cooldown_minutes fw = 30" and "utc_now_elapsed clk - t = 600"
  shows "consecutive_loss_decision parse clk fw snap
     = Inr \<lparr>allowed = False, reason = cooldown_after_consecutive_losses,
            cooldown_remaining_sec = 1200\<rparr>"
proof -
  have el: "elapsed_since clk (parse last_iso) = Inr 600"
    using assms(3,5) by (simp add: elapsed_since_def)
  have r: "py_int (of_int (cooldown_minutes fw * 60) - 600) = 1200"
    using assms(4) by (simp add: py_int_def)
  show ?thesis
    using cooldown_positive [where snap = snap and last_iso = last_iso and parse = parse
        and el = 600 and fw = fw and clk = clk] assms(1,2) el r
    by simp
qed

text \<open>\<open>check\<close> as a flat cascade over the firewall before the daily reset.\<close>

lemma check_cascade:
  assumes "daily_start_equity (reset_daily_if_needed clk fw snap) = Some start"
  shows "check parse clk fw snap =
     (if peak_equity snap \<le> 0
      then Inr (reject invalid_peak_equity, reset_daily_if_needed clk fw snap)
      else if max_drawdown_total fw \<le> (peak_equity snap - equity snap) / peak_equity snap
      then Inr (reject (max_drawdown_total_reached
                          ((peak_equity snap - equity snap) / peak_equity snap)),
                reset_daily_if_needed clk fw snap)
      else if max_loss_daily fw \<le> (start - equity snap) / max start (1 / 10 ^ 9)
      then Inr (reject (max_loss_daily_reached ((start - equity snap) / max start (1 / 10 ^ 9))),
                reset_daily_if_needed clk fw snap)
      else if max_trades_daily fw \<le> trades_today snap
      then Inr (reject max_trades_daily_reached, reset_daily_if_needed clk fw snap)
      else if max_consecutive_losses fw \<le> consecutive_losses snap
      then (case consecutive_loss_decision parse clk fw snap of
              Inl e \<Rightarrow> Inl e
            | Inr d \<Rightarrow> Inr (d, reset_daily_if_needed clk fw snap))
      else Inr (\<lparr>allowed = True, reason = risk_ok, cooldown_remaining_sec = 0\<rparr>,
                reset_daily_if_needed clk fw snap))"
  by (simp add: check_def Let_def assms reset_daily_fields consecutive_loss_decision_fields)

text \<open>The only exception \<open>check\<close> raises is the \<open>TypeError\<close> of the subtraction.\<close>

lemma check_raises_only_TypeError:
  assumes "check parse clk fw snap = Inl e"
  shows "e = TypeError"
proof -
  obtain start where start: "daily_start_equity (reset_daily_if_needed clk fw snap) = Some start"
    using reset_daily_start by blast
  have "consecutive_loss_decision parse clk fw snap = Inl e"
    using assms unfolding check_cascade [OF start]
    by (auto split: if_splits sum.splits)
  then show ?thesis
    by (auto simp: consecutive_loss_decision_def Let_def reject_def dest: elapsed_since_error
        split: option.splits if_splits sum.splits)
qed

lemma check_state:
  assumes "check parse clk fw snap = Inr (d, fw1)"
  shows "fw1 = reset_daily_if_needed clk fw snap"
proof -
  obtain start where start: "daily_start_equity (reset_daily_if_needed clk fw snap) = Some start"
    using reset_daily_start by blast
  show ?thesis
    using assms unfolding check_cascade [OF start]
    by (auto split: if_splits sum.splits)
qed

text \<open>
  A last-close time of the other timezone awareness, met in the consecutive-loss branch,
  raises \<open>TypeError\<close>.
\<close>

lemma check_last_close_mismatch:
  assumes "0 < peak_equity snap"
    and "(peak_equity snap - equity snap) / peak_equity snap < max_drawdown_total fw"
    and "daily_start_equity (reset_daily_if_needed clk fw snap) = Some start"
    and "(start - equity snap) / max start (1 / 10 ^ 9) < max_loss_daily fw"
    and "trades_today snap < max_trades_daily fw"
    and "max_consecutive_losses fw \<le> consecutive_losses snap"
    and "last_trade_closed_at_iso snap = Some last_iso" and "last_iso \<noteq> []"
    and "parse last_iso = Some (t, aw)" and "aw \<noteq> utc_aware clk"
  shows "check parse clk fw snap = Inl TypeError"
proof -
  have "consecutive_loss_decision parse clk fw snap = Inl TypeError"
    using assms(7-10) by (rule last_close_mismatch)
  then show ?thesis
    using assms(1,2,4,5,6) unfolding check_cascade [OF assms(3)] by (simp add: not_le)
qed

text \<open>
  Claim C3, as first stated, fails for a last-close string of the other timezone
  awareness. The snapshot passes the first four checks, has five consecutive losses
  against a maximum of five and a last close ten minutes in the past, written without a
  UTC offset; with a timezone-aware clock \<open>check\<close> raises \<open>TypeError\<close> and returns no
  decision.
\<close>

theorem check_naive_last_close_counterexample:
  "check demo_fromisoformat demo_clock demo_firewall naive_snapshot = Inl TypeError
   \<and> demo_fromisoformat ''2024-01-01T00:00:00'' = Some (1704067200, False)
   \<and> utc_now_elapsed demo_clock - 1704067200 = 600
   \<and> max_consecutive_losses demo_firewall \<le> consecutive_losses naive_snapshot
   \<and> cooldown_minutes demo_firewall = 30"
  by (simp add: check_def reset_daily_if_needed_def consecutive_loss_decision_def
      elapsed_since_def Let_def naive_snapshot_def demo_snapshot_def demo_firewall_def
      demo_clock_def demo_fromisoformat_def)

text \<open>
  Claim C3, amended. The first limit that fails decides \<open>check\<close>, in the order peak
  equity, drawdown, daily loss, trade count, consecutive losses, and when none fails the
  decision is allowed. When the first four pass and the consecutive losses are at or above
  the maximum, every decision returned is a rejection: without a last-close string the
  reason is the generic one; with a last-close time of the clock's own timezone awareness
  (as the engine's records are), or with a string that does not parse (the last close is
  then taken to be now), the remaining cooldown is \<open>int(cooldown_minutes * 60 - elapsed)\<close>,
  carried with the cooldown reason when it is positive and replaced by the generic reason
  otherwise; with a cooldown of 30 minutes and a last close 600 seconds ago it is 1200.
\<close>

theorem check_first_failing_limit_wins:
  "\<exists>start.
     daily_start_equity (reset_daily_if_needed clk fw snap) = Some start
     \<and> (peak_equity snap \<le> 0 \<longrightarrow>
          check parse clk fw snap
            = Inr (reject invalid_peak_equity, reset_daily_if_needed clk fw snap))
     \<and> (0 < peak_equity snap \<longrightarrow>
          (let dd = (peak_equity snap - equity snap) / peak_equity snap;
               daily_loss = (start - equity snap) / max start (1 / 10 ^ 9);
               fw1 = reset_daily_if_needed clk fw snap
           in (max_drawdown_total fw \<le> dd \<longrightarrow>
                 check parse clk fw snap = Inr (reject (max_drawdown_total_reached dd), fw1))
            \<and> (dd < max_drawdown_total fw \<and> max_loss_daily fw \<le> daily_loss \<longrightarrow>
                 check parse clk fw snap = Inr (reject (max_loss_daily_reached daily_loss), fw1))
            \<and> (dd < max_drawdown_total fw \<and> daily_loss < max_loss_daily fw
                  \<and> max_trades_daily fw \<le> trades_today snap \<longrightarrow>
                 check parse clk fw snap = Inr (reject max_trades_daily_reached, fw1))
            \<and> (dd < max_drawdown_total fw \<and> daily_loss < max_loss_daily fw
                  \<and> trades_today snap < max_trades_daily fw
                  \<and> consecutive_losses snap < max_consecutive_losses fw \<longrightarrow>
                 check parse clk fw snap
                   = Inr (\<lparr>allowed = True, reason = risk_ok, cooldown_remaining_sec = 0\<rparr>, fw1))
            \<and> (dd < max_drawdown_total fw \<and> daily_loss < max_loss_daily fw
                  \<and> trades_today snap < max_trades_daily fw
                  \<and> max_consecutive_losses fw \<le> consecutive_losses snap \<longrightarrow>
                 (\<forall>d fw'. check parse clk fw snap = Inr (d, fw') \<longrightarrow> \<not> allowed d)
                 \<and> (last_trade_closed_at_iso snap = None \<or> last_trade_closed_at_iso snap = Some [] \<longrightarrow>
                      check parse clk fw snap = Inr (reject max_consecutive_losses_reached, fw1))
                 \<and> (\<forall>last_iso el. last_trade_closed_at_iso snap = Some last_iso \<and> last_iso \<noteq> []
                        \<and> (parse last_iso = None \<and> el = utc_now_elapsed clk - utc_now_fallback clk
                            \<or> (\<exists>t. parse last_iso = Some (t, utc_aware clk)
                                    \<and> el = utc_now_elapsed clk - t)) \<longrightarrow>
                      (let remaining = py_int (of_int (cooldown_minutes fw * 60) - el)
                       in (0 < remaining \<longrightarrow>
                             check parse clk fw snap
                               = Inr (\<lparr>allowed = False, reason = cooldown_after_consecutive_losses,
                                       cooldown_remaining_sec = remaining\<rparr>, fw1))
                        \<and> (remaining \<le> 0 \<longrightarrow>
                             check parse clk fw snap
                               = Inr (reject max_consecutive_losses_reached, fw1))))
                 \<and> (\<forall>last_iso t. last_trade_closed_at_iso snap = Some last_iso \<and> last_iso \<noteq> []
                        \<and> parse last_iso = Some (t, utc_aware clk)
                        \<and> cooldown_minutes fw = 30 \<and> utc_now_elapsed clk - t = 600 \<longrightarrow>
                      check parse clk fw snap
                        = Inr (\<lparr>allowed = False, reason = cooldown_after_consecutive_losses,
                                cooldown_remaining_sec = 1200\<rparr>, fw1)))))"
proof -
  obtain start where start: "daily_start_equity (reset_daily_if_needed clk fw snap) = Some start"
    using reset_daily_start by blast
  let ?fw1 = "reset_daily_if_needed clk fw snap"
  let ?res = "check parse clk fw snap"
  let ?cld = "consecutive_loss_decision parse clk fw snap"
  define dd where "dd = (peak_equity snap - equity snap) / peak_equity snap"
  define dl where "dl = (start - equity snap) / max start (1 / 10 ^ 9)"
  have casc: "?res =
     (if peak_equity snap \<le> 0 then Inr (reject invalid_peak_equity, ?fw1)
      else if max_drawdown_total fw \<le> dd then Inr (reject (max_drawdown_total_reached dd), ?fw1)
      else if max_loss_daily fw \<le> dl then Inr (reject (max_loss_daily_reached dl), ?fw1)
      else if max_trades_daily fw \<le> trades_today snap
      then Inr (reject max_trades_daily_reached, ?fw1)
      else if max_consecutive_losses fw \<le> consecutive_losses snap
      then (case ?cld of Inl e \<Rightarrow> Inl e | Inr d \<Rightarrow> Inr (d, ?fw1))
      else Inr (\<lparr>allowed = True, reason = risk_ok, cooldown_remaining_sec = 0\<rparr>, ?fw1))"
    unfolding dd_def dl_def by (rule check_cascade [OF start])
  have c1: "?res = Inr (reject invalid_peak_equity, ?fw1)" if "peak_equity snap \<le> 0"
    using that by (simp add: casc)
  have c2: "?res = Inr (reject (max_drawdown_total_reached dd), ?fw1)"
    if "0 < peak_equity snap" "max_drawdown_total fw \<le> dd"
    using that by (simp add: casc)
  have c3: "?res = Inr (reject (max_loss_daily_reached dl), ?fw1)"
    if "0 < peak_equity snap" "dd < max_drawdown_total fw \<and> max_loss_daily fw \<le> dl"
    using that by (simp add: casc)
  have c4: "?res = Inr (reject max_trades_daily_reached, ?fw1)"
    if "0 < peak_equity snap"
       "dd < max_drawdown_total fw \<and> dl < max_loss_daily fw
          \<and> max_trades_daily fw \<le> trades_today snap"
    using that by (simp add: casc)
  have c5: "?res = Inr (\<lparr>allowed = True, reason = risk_ok, cooldown_remaining_sec = 0\<rparr>, ?fw1)"
    if "0 < peak_equity snap"
       "dd < max_drawdown_total fw \<and> dl < max_loss_daily fw
          \<and> trades_today snap < max_trades_daily fw
          \<and> consecutive_losses snap < max_consecutive_losses fw"
    using that by (simp add: casc)
  have c6: "?res = (case ?cld of Inl e \<Rightarrow> Inl e | Inr d \<Rightarrow> Inr (d, ?fw1))"
    if "0 < peak_equity snap"
       "dd < max_drawdown_total fw \<and> dl < max_loss_daily fw
          \<and> trades_today snap < max_trades_daily fw
          \<and> max_consecutive_losses fw \<le> consecutive_losses snap"
    using that by (simp add: casc)
  have branch: "(\<forall>d fw'. ?res = Inr (d, fw') \<longrightarrow> \<not> allowed d)
     \<and> (last_trade_closed_at_iso snap = None \<or> last_trade_closed_at_iso snap = Some [] \<longrightarrow>
          ?res = Inr (reject max_consecutive_losses_reached, ?fw1))
     \<and> (\<forall>last_iso el. last_trade_closed_at_iso snap = Some last_iso \<and> last_iso \<noteq> []
            \<and> (parse last_iso = None \<and> el = utc_now_elapsed clk - utc_now_fallback clk
                \<or> (\<exists>t. parse last_iso = Some (t, utc_aware clk)
                        \<and> el = utc_now_elapsed clk - t)) \<longrightarrow>
          (let remaining = py_int (of_int (cooldown_minutes fw * 60) - el)
           in (0 < remaining \<longrightarrow>
                 ?res = Inr (\<lparr>allowed = False, reason = cooldown_after_consecutive_losses,
                              cooldown_remaining_sec = remaining\<rparr>, ?fw1))
            \<and> (remaining \<le> 0 \<longrightarrow>
                 ?res = Inr (reject max_consecutive_losses_reached, ?fw1))))
     \<and> (\<forall>last_iso t. last_trade_closed_at_iso snap = Some last_iso \<and> last_iso \<noteq> []
            \<and> parse last_iso = Some (t, utc_aware clk)
            \<and> cooldown_minutes fw = 30 \<and> utc_now_elapsed clk - t = 600 \<longrightarrow>
          ?res = Inr (\<lparr>allowed = False, reason = cooldown_after_consecutive_losses,
                       cooldown_remaining_sec = 1200\<rparr>, ?fw1))"
    if pk: "0 < peak_equity snap"
      and five: "dd < max_drawdown_total fw \<and> dl < max_loss_daily fw
          \<and> trades_today snap < max_trades_daily fw
          \<and> max_consecutive_losses fw \<le> consecutive_losses snap"
  proof -
    note r = c6 [OF pk five]
    have b1: "\<forall>d fw'. ?res = Inr (d, fw') \<longrightarrow> \<not> allowed d"
      unfolding r using consecutive_loss_decision_rejects [of parse clk fw snap]
      by (auto split: sum.splits)
    have b2: "?res = Inr (reject max_consecutive_losses_reached, ?fw1)"
      if "last_trade_closed_at_iso snap = None \<or> last_trade_closed_at_iso snap = Some []"
      unfolding r by (simp add: no_last_close [OF that])
    have b4: "(let remaining = py_int (of_int (cooldown_minutes fw * 60) - el)
           in (0 < remaining \<longrightarrow>
                 ?res = Inr (\<lparr>allowed = False, reason = cooldown_after_consecutive_losses,
                              cooldown_remaining_sec = remaining\<rparr>, ?fw1))
            \<and> (remaining \<le> 0 \<longrightarrow>
                 ?res = Inr (reject max_consecutive_losses_reached, ?fw1)))"
      if h: "last_trade_closed_at_iso snap = Some last_iso \<and> last_iso \<noteq> []
            \<and> (parse last_iso = None \<and> el = utc_now_elapsed clk - utc_now_fallback clk
                \<or> (\<exists>t. parse last_iso = Some (t, utc_aware clk)
                        \<and> el = utc_now_elapsed clk - t))" for last_iso el
    proof -
      have l: "last_trade_closed_at_iso snap = Some last_iso" and ne: "last_iso \<noteq> []"
        using h by auto
      have el: "elapsed_since clk (parse last_iso) = Inr el"
        using h by (auto simp: elapsed_since_def)
      have pos: "?cld = Inr \<lparr>allowed = False, reason = cooldown_after_consecutive_losses,
            cooldown_remaining_sec = py_int (of_int (cooldown_minutes fw * 60) - el)\<rparr>"
        if "0 < py_int (of_int (cooldown_minutes fw * 60) - el)"
        using l ne el that by (rule cooldown_positive)
      have over: "?cld = Inr (reject max_consecutive_losses_reached)"
        if "py_int (of_int (cooldown_minutes fw * 60) - el) \<le> 0"
        using l ne el that by (rule cooldown_over)
      show ?thesis
        unfolding r Let_def using pos over by simp
    qed
    have b5: "?res = Inr (\<lparr>allowed = False, reason = cooldown_after_consecutive_losses,
                       cooldown_remaining_sec = 1200\<rparr>, ?fw1)"
      if h: "last_trade_closed_at_iso snap = Some last_iso \<and> last_iso \<noteq> []
            \<and> parse last_iso = Some (t, utc_aware clk)
            \<and> cooldown_minutes fw = 30 \<and> utc_now_elapsed clk - t = 600" for last_iso t
    proof -
      have "?cld = Inr \<lparr>allowed = False, reason = cooldown_after_consecutive_losses,
            cooldown_remaining_sec = 1200\<rparr>"
        using h by (intro cooldown_scenario [where last_iso = last_iso and t = t]) auto
      then show ?thesis unfolding r by simp
    qed
    show ?thesis
      apply (rule conjI, rule b1)
      apply (rule conjI, rule impI, erule b2)
      apply (rule conjI, intro allI impI, erule b4)
      apply (intro allI impI, erule b5)
      done
  qed
  show ?thesis
    apply (rule exI [of _ start])
    apply (rule conjI, rule start)
    apply (rule conjI, rule impI, erule c1)
    apply (rule impI)
    unfolding Let_def dd_def [symmetric] dl_def [symmetric]
    apply (rule conjI, rule impI, erule (1) c2)
    apply (rule conjI, rule impI, erule (1) c3)
    apply (rule conjI, rule impI, erule (1) c4)
    apply (rule conjI, rule impI, erule (1) c5)
    apply (rule impI, erule (1) branch [unfolded Let_def])
    done
qed

theorem check_first_failing_limit_wins_witness:
  "0 < peak_equity demo_snapshot
   \<and> max_consecutive_losses demo_firewall \<le> consecutive_losses demo_snapshot
   \<and> last_trade_closed_at_iso demo_snapshot = Some ''2024-01-01T00:00:00+00:00''
   \<and> demo_fromisoformat ''2024-01-01T00:00:00+00:00'' = Some (1704067200, utc_aware demo_clock)
   \<and> cooldown_minutes demo_firewall = 30
   \<and> utc_now_elapsed demo_clock - 1704067200 = 600
   \<and> check demo_fromisoformat demo_clock demo_firewall demo_snapshot
       = Inr (\<lparr>allowed = False, reason = cooldown_after_consecutive_losses,
               cooldown_remaining_sec = 1200\<rparr>,
              demo_firewall\<lparr>daily_start_equity := Some 1000\<rparr>)"
proof -
  let ?res = "check demo_fromisoformat demo_clock demo_firewall demo_snapshot"
  let ?fw1 = "reset_daily_if_needed demo_clock demo_firewall demo_snapshot"
  have fw1: "?fw1 = demo_firewall\<lparr>daily_start_equity := Some 1000\<rparr>"
    by (simp add: reset_daily_if_needed_def demo_clock_def demo_firewall_def demo_snapshot_def)
  have h1: "0 < peak_equity demo_snapshot" by (simp add: demo_snapshot_def)
  have h2: "max_consecutive_losses demo_firewall \<le> consecutive_losses demo_snapshot"
    by (simp add: demo_snapshot_def demo_firewall_def)
  have h3: "last_trade_closed_at_iso demo_snapshot = Some ''2024-01-01T00:00:00+00:00''"
    by (simp add: demo_snapshot_def)
  have h4: "demo_fromisoformat ''2024-01-01T00:00:00+00:00'' = Some (1704067200, utc_aware demo_clock)"
    by (simp add: demo_fromisoformat_def demo_clock_def)
  have h5: "cooldown_minutes demo_firewall = 30" by (simp add: demo_firewall_def)
  have h6: "utc_now_elapsed demo_clock - 1704067200 = 600" by (simp add: demo_clock_def)
  obtain start where
    s: "daily_start_equity ?fw1 = Some start"
    and c: "0 < peak_equity demo_snapshot \<longrightarrow>
          (let dd = (peak_equity demo_snapshot - equity demo_snapshot) / peak_equity demo_snapshot;
               daily_loss = (start - equity demo_snapshot) / max start (1 / 10 ^ 9);
               fw1 = ?fw1
           in (max_drawdown_total demo_firewall \<le> dd \<longrightarrow>
                 ?res = Inr (reject (max_drawdown_total_reached dd), fw1))
            \<and> (dd < max_drawdown_total demo_firewall \<and> max_loss_daily demo_firewall \<le> daily_loss \<longrightarrow>
                 ?res = Inr (reject (max_loss_daily_reached daily_loss), fw1))
            \<and> (dd < max_drawdown_total demo_firewall \<and> daily_loss < max_loss_daily demo_firewall
                  \<and> max_trades_daily demo_firewall \<le> trades_today demo_snapshot \<longrightarrow>
                 ?res = Inr (reject max_trades_daily_reached, fw1))
            \<and> (dd < max_drawdown_total demo_firewall \<and> daily_loss < max_loss_daily demo_firewall
                  \<and> trades_today demo_snapshot < max_trades_daily demo_firewall
                  \<and> consecutive_losses demo_snapshot < max_consecutive_losses demo_firewall \<longrightarrow>
                 ?res = Inr (\<lparr>allowed = True, reason = risk_ok, cooldown_remaining_sec = 0\<rparr>, fw1))
            \<and> (dd < max_drawdown_total demo_firewall \<and> daily_loss < max_loss_daily demo_firewall
                  \<and> trades_today demo_snapshot < max_trades_daily demo_firewall
                  \<and> max_consecutive_losses demo_firewall \<le> consecutive_losses demo_snapshot \<longrightarrow>
                 (\<forall>d fw'. ?res = Inr (d, fw') \<longrightarrow> \<not> allowed d)
                 \<and> (last_trade_closed_at_iso demo_snapshot = None
                      \<or> last_trade_closed_at_iso demo_snapshot = Some [] \<longrightarrow>
                      ?res = Inr (reject max_consecutive_losses_reached, fw1))
                 \<and> (\<forall>last_iso el. last_trade_closed_at_iso demo_snapshot = Some last_iso \<and> last_iso \<noteq> []
                        \<and> (demo_fromisoformat last_iso = None
                              \<and> el = utc_now_elapsed demo_clock - utc_now_fallback demo_clock
                            \<or> (\<exists>t. demo_fromisoformat last_iso = Some (t, utc_aware demo_clock)
                                    \<and> el = utc_now_elapsed demo_clock - t)) \<longrightarrow>
                      (let remaining = py_int (of_int (cooldown_minutes demo_firewall * 60) - el)
                       in (0 < remaining \<longrightarrow>
                             ?res = Inr (\<lparr>allowed = False, reason = cooldown_after_consecutive_losses,
                                          cooldown_remaining_sec = remaining\<rparr>, fw1))
                        \<and> (remaining \<le> 0 \<longrightarrow>
                             ?res = Inr (reject max_consecutive_losses_reached, fw1))))
                 \<and> (\<forall>last_iso t. last_trade_closed_at_iso demo_snapshot = Some last_iso \<and> last_iso \<noteq> []
                        \<and> demo_fromisoformat last_iso = Some (t, utc_aware demo_clock)
                        \<and> cooldown_minutes demo_firewall = 30 \<and> utc_now_elapsed demo_clock - t = 600 \<longrightarrow>
                      ?res = Inr (\<lparr>allowed = False, reason = cooldown_after_consecutive_losses,
                                   cooldown_remaining_sec = 1200\<rparr>, fw1))))"
    using check_first_failing_limit_wins [of demo_clock demo_firewall demo_snapshot demo_fromisoformat]
    by (elim exE conjE) (rule that)
  have st: "start = 1000" using s by (simp add: fw1)
  have five: "\<forall>last_iso t. last_trade_closed_at_iso demo_snapshot = Some last_iso \<and> last_iso \<noteq> []
                        \<and> demo_fromisoformat last_iso = Some (t, utc_aware demo_clock)
                        \<and> cooldown_minutes demo_firewall = 30 \<and> utc_now_elapsed demo_clock - t = 600 \<longrightarrow>
                      ?res = Inr (\<lparr>allowed = False, reason = cooldown_after_consecutive_losses,
                                   cooldown_remaining_sec = 1200\<rparr>, ?fw1)"
    using c h1 unfolding Let_def st
    by (simp add: demo_snapshot_def demo_firewall_def)
  have "?res = Inr (\<lparr>allowed = False, reason = cooldown_after_consecutive_losses,
                     cooldown_remaining_sec = 1200\<rparr>, ?fw1)"
    using five h3 h4 h5 h6 by simp
  then show ?thesis using h1 h2 h3 h4 h5 h6 by (simp only: fw1 simp_thms)
qed

section \<open>Risk firewall: monotone in the consecutive losses\<close>

text \<open>
  Whether the consecutive-loss branch returns depends on the last-close string, the
  parser and the clock's timezone awareness only.
\<close>

lemma consecutive_loss_decision_returns:
  assumes "consecutive_loss_decision parse clk fw snap = Inr d"
    and "utc_aware clk' = utc_aware clk"
    and "last_trade_closed_at_iso snap' = last_trade_closed_at_iso snap"
  shows "\<exists>d'. consecutive_loss_decision parse clk' fw' snap' = Inr d'"
  using assms
  by (auto simp: consecutive_loss_decision_def elapsed_since_def Let_def
      split: option.splits if_splits sum.splits)

text \<open>A returned decision is allowed exactly when all five limits pass.\<close>

lemma check_allowed_iff:
  assumes "daily_start_equity (reset_daily_if_needed clk fw snap) = Some start"
    and "check parse clk fw snap = Inr (d, fw1)"
  shows "allowed d \<longleftrightarrow>
          0 < peak_equity snap
          \<and> (peak_equity snap - equity snap) / peak_equity snap < max_drawdown_total fw
          \<and> (start - equity snap) / max start (1 / 10 ^ 9) < max_loss_daily fw
          \<and> trades_today snap < max_trades_daily fw
          \<and> consecutive_losses snap < max_consecutive_losses fw"
  using assms(2) consecutive_loss_decision_rejects [of parse clk fw snap]
  unfolding check_cascade [OF assms(1)]
  by (auto simp: reject_def not_le split: if_splits sum.splits)

text \<open>
  With a limit that fails, \<open>check\<close> returns a rejection as soon as the consecutive-loss
  branch, if it is reached, returns.
\<close>

lemma check_rejects:
  assumes "daily_start_equity (reset_daily_if_needed clk fw snap) = Some start"
    and "\<not> (0 < peak_equity snap
          \<and> (peak_equity snap - equity snap) / peak_equity snap < max_drawdown_total fw
          \<and> (start - equity snap) / max start (1 / 10 ^ 9) < max_loss_daily fw
          \<and> trades_today snap < max_trades_daily fw
          \<and> consecutive_losses snap < max_consecutive_losses fw)"
    and "consecutive_loss_decision parse clk fw snap = Inr d0"
  shows "\<exists>d. check parse clk fw snap = Inr (d, reset_daily_if_needed clk fw snap) \<and> \<not> allowed d"
  using assms(2) consecutive_loss_decision_rejects [OF assms(3)]
  unfolding check_cascade [OF assms(1)]
  by (auto simp: reject_def not_le assms(3))

text \<open>
  Claim C9. When \<open>check\<close> rejects a snapshot, it rejects the same snapshot with a strictly
  larger number of consecutive losses too, on the same day, whatever the time of day and
  whether it is called on the same firewall state or on the state the first call left.
  Both calls use the same parser and clocks of the same timezone awareness.
\<close>

theorem check_monotone_in_consecutive_losses:
  assumes "check parse clk fw snap = Inr (d, fw1)" and "\<not> allowed d"
    and "consecutive_losses snap < n" and "utc_today clk' = utc_today clk"
    and "utc_aware clk' = utc_aware clk"
  shows "(\<exists>d'. check parse clk' fw (snap\<lparr>consecutive_losses := n\<rparr>) = Inr (d', fw1) \<and> \<not> allowed d')
       \<and> (\<exists>d'. check parse clk' fw1 (snap\<lparr>consecutive_losses := n\<rparr>) = Inr (d', fw1) \<and> \<not> allowed d')"
proof -
  let ?snap' = "snap\<lparr>consecutive_losses := n\<rparr>"
  obtain start where start: "daily_start_equity (reset_daily_if_needed clk fw snap) = Some start"
    using reset_daily_start by blast
  have fw1: "fw1 = reset_daily_if_needed clk fw snap"
    using assms(1) by (rule check_state)
  let ?r = "reset_daily_if_needed clk fw snap"
  have ra: "reset_daily_if_needed clk' fw ?snap' = ?r"
    using reset_daily_cong [OF assms(4), of ?snap' snap fw] by simp
  have rb: "reset_daily_if_needed clk' ?r ?snap' = ?r"
    using reset_daily_idem [OF assms(4), of fw snap ?snap'] by simp
  have no: "\<not> (0 < peak_equity snap
          \<and> (peak_equity snap - equity snap) / peak_equity snap < max_drawdown_total fw
          \<and> (start - equity snap) / max start (1 / 10 ^ 9) < max_loss_daily fw
          \<and> trades_today snap < max_trades_daily fw
          \<and> consecutive_losses snap < max_consecutive_losses fw)"
    using check_allowed_iff [OF start assms(1)] assms(2) by simp
  have sa: "daily_start_equity (reset_daily_if_needed clk' fw ?snap') = Some start"
    using start by (simp only: ra)
  have sb: "daily_start_equity (reset_daily_if_needed clk' ?r ?snap') = Some start"
    using start by (simp only: rb)
  have no': "\<not> (0 < peak_equity ?snap'
          \<and> (peak_equity ?snap' - equity ?snap') / peak_equity ?snap' < max_drawdown_total fw
          \<and> (start - equity ?snap') / max start (1 / 10 ^ 9) < max_loss_daily fw
          \<and> trades_today ?snap' < max_trades_daily fw
          \<and> consecutive_losses ?snap' < max_consecutive_losses fw)"
    using no assms(3) by auto
  have no'': "\<not> (0 < peak_equity ?snap'
          \<and> (peak_equity ?snap' - equity ?snap') / peak_equity ?snap' < max_drawdown_total ?r
          \<and> (start - equity ?snap') / max start (1 / 10 ^ 9) < max_loss_daily ?r
          \<and> trades_today ?snap' < max_trades_daily ?r
          \<and> consecutive_losses ?snap' < max_consecutive_losses ?r)"
    using no' unfolding reset_daily_fields .
  show ?thesis
  proof (cases "0 < peak_equity snap
          \<and> (peak_equity snap - equity snap) / peak_equity snap < max_drawdown_total fw
          \<and> (start - equity snap) / max start (1 / 10 ^ 9) < max_loss_daily fw
          \<and> trades_today snap < max_trades_daily fw")
    case True
    then have "max_consecutive_losses fw \<le> consecutive_losses snap" using no by auto
    then have "(case consecutive_loss_decision parse clk fw snap of
              Inl e \<Rightarrow> Inl e | Inr d \<Rightarrow> Inr (d, ?r)) = Inr (d, fw1)"
      using assms(1) True unfolding check_cascade [OF start] by (simp add: not_le)
    then have cl: "consecutive_loss_decision parse clk fw snap = Inr d"
      by (simp split: sum.splits)
    obtain da where da: "consecutive_loss_decision parse clk' fw ?snap' = Inr da"
      using consecutive_loss_decision_returns [OF cl assms(5), of ?snap' fw] by auto
    obtain db where db: "consecutive_loss_decision parse clk' ?r ?snap' = Inr db"
      using consecutive_loss_decision_returns [OF cl assms(5), of ?snap' ?r] by auto
    have a: "\<exists>d'. check parse clk' fw ?snap' = Inr (d', ?r) \<and> \<not> allowed d'"
      using check_rejects [OF sa no' da] by (simp only: ra)
    have b: "\<exists>d'. check parse clk' ?r ?snap' = Inr (d', ?r) \<and> \<not> allowed d'"
      using check_rejects [OF sb no'' db] by (simp only: rb)
    show ?thesis using a b unfolding fw1 by (rule conjI)
  next
    case False
    have a: "\<exists>d'. check parse clk' fw ?snap' = Inr (d', ?r) \<and> \<not> allowed d'"
      using False unfolding check_cascade [OF sa] ra
      by (auto simp: reject_def not_le not_less)
    have b: "\<exists>d'. check parse clk' ?r ?snap' = Inr (d', ?r) \<and> \<not> allowed d'"
      using False unfolding check_cascade [OF sb] rb
      by (auto simp: reject_def not_le not_less reset_daily_fields)
    show ?thesis using a b unfolding fw1 by (rule conjI)
  qed
qed

theorem check_monotone_in_consecutive_losses_witness:
  "\<not> allowed (fst (projr (check demo_fromisoformat demo_clock demo_firewall demo_snapshot)))
   \<and> consecutive_losses demo_snapshot < 9
   \<and> (\<exists>d'. check demo_fromisoformat (demo_clock\<lparr>utc_now_elapsed := 1704070000\<rparr>) demo_firewall
              (demo_snapshot\<lparr>consecutive_losses := 9\<rparr>)
            = Inr (d', demo_firewall\<lparr>daily_start_equity := Some 1000\<rparr>) \<and> \<not> allowed d')"
proof -
  have r: "check demo_fromisoformat demo_clock demo_firewall demo_snapshot
     = Inr (\<lparr>allowed = False, reason = cooldown_after_consecutive_losses,
             cooldown_remaining_sec = 1200\<rparr>,
            demo_firewall\<lparr>daily_start_equity := Some 1000\<rparr>)"
    by (simp add: check_def reset_daily_if_needed_def consecutive_loss_decision_def elapsed_since_def
        Let_def py_int_def demo_snapshot_def demo_firewall_def demo_clock_def demo_fromisoformat_def)
  have h2: "\<not> allowed \<lparr>allowed = False, reason = cooldown_after_consecutive_losses,
             cooldown_remaining_sec = 1200\<rparr>" by simp
  have h3: "consecutive_losses demo_snapshot < 9" by (simp add: demo_snapshot_def)
  have h4: "utc_today (demo_clock\<lparr>utc_now_elapsed := 1704070000\<rparr>) = utc_today demo_clock" by simp
  have h5: "utc_aware (demo_clock\<lparr>utc_now_elapsed := 1704070000\<rparr>) = utc_aware demo_clock" by simp
  show ?thesis
    using check_monotone_in_consecutive_losses [OF r h2 h3 h4 h5] r h3
    by simp
qed
section \<open>Reconnection backoff\<close>

text \<open>
  \<open>_connect_and_run\<close> never returns normally: the wait ends only when a task has raised
  or when both are finished, and the heartbeat task finishes only by raising.
\<close>

lemma connect_and_run_never_returns: "connect_and_run s \<noteq> Some Returned"
proof (cases "heartbeat s")
  case (PingFailed e)
  then show ?thesis
    by (cases "reader s")
       (simp_all add: connect_and_run_def wait_first_exception_def reader_task_def heartbeat_task_def
          split: option.splits sum.splits)
next
  case HeartbeatRunning
  then show ?thesis
    by (cases "reader s")
       (simp_all add: connect_and_run_def wait_first_exception_def reader_task_def heartbeat_task_def
          split: option.splits sum.splits)
qed

lemma run_forever_loop_failed:
  assumes "\<not> stop_before a" and "connect_and_run (session a) = Some (Raised e)"
    and "\<not> stop_after a" and "rnd a = 0" and "b \<le> mb"
  shows "run_forever_loop mb b (a # rest) = b # run_forever_loop mb (min mb (b * 2)) rest"
  using assms by (simp add: Let_def)

lemma failure_run:
  assumes "\<forall>a \<in> set attempts. \<not> stop_before a \<and> (\<exists>e. connect_and_run (session a) = Some (Raised e))
             \<and> \<not> stop_after a \<and> rnd a = 0"
    and "0 < b" and "b \<le> mb"
  shows "length (run_forever_loop mb b attempts) = length attempts
    \<and> (attempts \<noteq> [] \<longrightarrow> hd (run_forever_loop mb b attempts) = b)
    \<and> successively (\<lambda>d d'. d \<le> d' \<and> d' \<le> 2 * d) (run_forever_loop mb b attempts)
    \<and> (\<forall>d \<in> set (run_forever_loop mb b attempts). d \<le> mb)"
  using assms
proof (induction attempts arbitrary: b)
  case Nil
  then show ?case by simp
next
  case (Cons a rest)
  let ?b' = "min mb (b * 2)"
  obtain e where e: "connect_and_run (session a) = Some (Raised e)"
    using Cons.prems(1) by auto
  have step: "run_forever_loop mb b (a # rest) = b # run_forever_loop mb ?b' rest"
    using Cons.prems e by (intro run_forever_loop_failed [where e = e]) auto
  have b': "0 < ?b'" "?b' \<le> mb" "b \<le> ?b'" "?b' \<le> 2 * b"
    using Cons.prems(2,3) by auto
  have ih: "length (run_forever_loop mb ?b' rest) = length rest
    \<and> (rest \<noteq> [] \<longrightarrow> hd (run_forever_loop mb ?b' rest) = ?b')
    \<and> successively (\<lambda>d d'. d \<le> d' \<and> d' \<le> 2 * d) (run_forever_loop mb ?b' rest)
    \<and> (\<forall>d \<in> set (run_forever_loop mb ?b' rest). d \<le> mb)"
    using Cons.prems(1) b'(1,2) by (intro Cons.IH) auto
  have nonempty: "run_forever_loop mb ?b' rest = [] \<longleftrightarrow> rest = []"
    using ih by (metis length_0_conv)
  show ?case
    unfolding step
    using ih b' Cons.prems(3) nonempty by (auto simp: successively_Cons)
qed

lemma delays_capped: "\<forall>d \<in> set (run_forever_loop mb b attempts). d \<le> mb"
proof (induction attempts arbitrary: b)
  case Nil
  then show ?case by simp
next
  case (Cons a rest)
  show ?case
  proof (cases "connect_and_run (session a)")
    case None
    then show ?thesis by simp
  next
    case (Some res)
    then show ?thesis
      using Cons.IH by (cases res) (simp_all add: Let_def)
  qed
qed

text \<open>
  What holds of claim C4 on the code. With the cap of 60: in a run of failed attempts with
  the jitter fixed to zero the first delay is 1, each delay is at least the one before it
  and at most twice it, and no delay exceeds 60; with any jitter and any outcomes no
  slept delay exceeds 60; and if \<open>_connect_and_run\<close> returned without an exception the
  loop would go on as from the initial backoff 1.
\<close>

lemma reconnect_backoff_sequence:
  "((\<forall>a \<in> set attempts. \<not> stop_before a \<and> (\<exists>e. connect_and_run (session a) = Some (Raised e))
                           \<and> \<not> stop_after a \<and> rnd a = 0) \<longrightarrow>
       length (run_forever 60 attempts) = length attempts
     \<and> (attempts \<noteq> [] \<longrightarrow> hd (run_forever 60 attempts) = 1)
     \<and> successively (\<lambda>d d'. d \<le> d' \<and> d' \<le> 2 * d) (run_forever 60 attempts)
     \<and> (\<forall>d \<in> set (run_forever 60 attempts). d \<le> 60))
   \<and> (\<forall>d \<in> set (run_forever 60 others). d \<le> 60)
   \<and> (connect_and_run (session a) = Some Returned \<longrightarrow>
         run_forever_loop 60 backoff (a # rest) = run_forever_loop 60 1 (a # rest))"
proof -
  have p1: "length (run_forever 60 attempts) = length attempts
     \<and> (attempts \<noteq> [] \<longrightarrow> hd (run_forever 60 attempts) = 1)
     \<and> successively (\<lambda>d d'. d \<le> d' \<and> d' \<le> 2 * d) (run_forever 60 attempts)
     \<and> (\<forall>d \<in> set (run_forever 60 attempts). d \<le> 60)"
    if "\<forall>a \<in> set attempts. \<not> stop_before a \<and> (\<exists>e. connect_and_run (session a) = Some (Raised e))
                           \<and> \<not> stop_after a \<and> rnd a = 0"
    unfolding run_forever_def using failure_run [OF that, of 1 60] by simp
  have p2: "\<forall>d \<in> set (run_forever 60 others). d \<le> 60"
    unfolding run_forever_def by (rule delays_capped)
  have p4: "run_forever_loop 60 backoff (a # rest) = run_forever_loop 60 1 (a # rest)"
    if "connect_and_run (session a) = Some Returned"
    using that by simp
  show ?thesis using p1 p2 p4 by blast
qed

text \<open>
  Since \<open>_connect_and_run\<close> leaves by an exception also after a connection that was
  established and authorised, every pass that sleeps doubles the backoff: the sequence of
  delays is the same whether the connections succeeded or not.
\<close>

lemma backoff_never_resets:
  assumes "\<forall>a \<in> set attempts. \<not> stop_before a \<and> \<not> stop_after a \<and> rnd a = 0
             \<and> connect_and_run (session a) \<noteq> None \<and> connect_and_run (session a) \<noteq> Some Cancelled"
  shows "length (run_forever 60 attempts) = length attempts
     \<and> successively (\<lambda>d d'. d \<le> d' \<and> d' \<le> 2 * d) (run_forever 60 attempts)"
proof -
  have "\<exists>e. connect_and_run (session a) = Some (Raised e)" if mem: "a \<in> set attempts" for a
  proof -
    obtain res where res: "connect_and_run (session a) = Some res"
      using assms mem by auto
    then show ?thesis
      using assms mem connect_and_run_never_returns [of "session a"] by (cases res) auto
  qed
  then have all: "\<forall>a \<in> set attempts. \<not> stop_before a \<and> (\<exists>e. connect_and_run (session a) = Some (Raised e))
             \<and> \<not> stop_after a \<and> rnd a = 0"
    using assms by blast
  have "(0::real) < 1" and "(1::real) \<le> 60" by simp_all
  from failure_run [OF all this] show ?thesis
    unfolding run_forever_def by blast
qed

text \<open>
  Claim C4 on the code: the reset is missing. Four sessions in a row connect and
  authorise, run, and end when the socket closes; with the jitter fixed to zero the loop
  sleeps 1, 2, 4 and 8 before the reconnections, where the claim has the initial delay 1
  after each successful connect.
\<close>

theorem backoff_not_reset_after_connect:
  "connected dropped_session
   \<and> run_forever 60 (replicate 4 (try_once dropped_session 0)) = [1, 2, 4, 8]"
  by code_simp

section \<open>Signal scorer: the score\<close>

lemma py_div_nonzero: "b \<noteq> 0 \<Longrightarrow> py_div a (b * 4) = Inr (a / (4 * b))"
  by (simp add: py_div_def mult.commute)

lemma score_signal_value:
  assumes "min_atr_pct st \<noteq> 0" and "min_ema_spread_pct st \<noteq> 0"
  shows "score_signal st sd lo hi ema_spread_pct atr_pct r =
     Inr \<lparr>signal_side = sd,
          signal_score = max 0 (min 1
            (45 / 100 * min 1 (ema_spread_pct / (4 * min_ema_spread_pct st))
             + 35 / 100 * max 0 (1 - \<bar>r - (lo + hi) / 2\<bar> / max ((hi - lo) / 2) (1 / 10 ^ 9))
             + 20 / 100 * min 1 (atr_pct / (4 * min_atr_pct st)))),
          signal_reason = signal_ok\<rparr>"
  unfolding score_signal_def py_div_nonzero [OF assms(1)] py_div_nonzero [OF assms(2)] Let_def
  by (simp only: sum.case)

lemma generate_uptrend:
  assumes "ema_fast ind = Some ef" and "ema_slow ind = Some es" and "atr ind = Some a"
    and "rsi ind = Some r" and "0 < candle_close c" and "es < ef"
    and "min_atr_pct st \<le> a / candle_close c"
    and "min_ema_spread_pct st \<le> \<bar>ef - es\<bar> / candle_close c"
    and "\<not> rsi_overbought st \<le> r"
    and "rsi_long_zone st = (lo, hi)" and "lo \<le> r" and "r \<le> hi"
  shows "generate st c ind
     = score_signal st ''CALL'' lo hi (\<bar>ef - es\<bar> / candle_close c) (a / candle_close c) r"
  using assms by (simp add: generate_def Let_def not_le not_less)

lemma generate_downtrend:
  assumes "ema_fast ind = Some ef" and "ema_slow ind = Some es" and "atr ind = Some a"
    and "rsi ind = Some r" and "0 < candle_close c" and "ef < es"
    and "min_atr_pct st \<le> a / candle_close c"
    and "min_ema_spread_pct st \<le> \<bar>ef - es\<bar> / candle_close c"
    and "\<not> r \<le> rsi_oversold st"
    and "rsi_short_zone st = (lo, hi)" and "lo \<le> r" and "r \<le> hi"
  shows "generate st c ind
     = score_signal st ''PUT'' lo hi (\<bar>ef - es\<bar> / candle_close c) (a / candle_close c) r"
  using assms by (simp add: generate_def Let_def not_le not_less)

lemma spec_score_agrees:
  assumes "2 / 10 ^ 9 \<le> hi - lo"
  shows "max 0 (min 1
            (45 / 100 * min 1 (sp / (4 * sf))
             + 35 / 100 * max 0 (1 - \<bar>r - (lo + hi) / 2\<bar> / max ((hi - lo) / 2) (1 / 10 ^ 9))
             + 20 / 100 * min 1 (ap / (4 * af))))
         = spec_score sp sf ap af r lo hi"
proof -
  have "max ((hi - lo) / 2) (1 / 10 ^ 9) = (hi - lo) / 2" using assms by simp
  then show ?thesis by (simp only: spec_score_def)
qed

text \<open>
  Claim C7, as first stated, fails in two corners of the parameters. With a pullback zone
  narrower than \<open>2e-9\<close> every gate passes and the score is not the stated formula,
  because the code divides by \<open>max(half width, 1e-9)\<close>. With a zero floor every gate
  passes and \<open>generate\<close> raises \<open>ZeroDivisionError\<close> instead of returning a score.
\<close>

theorem generate_score_counterexample:
  "generate narrow_zone_strategy scenario_candle (scenario_indicators 50)
     = Inr \<lparr>signal_side = ''CALL'', signal_score = 1 / 2, signal_reason = signal_ok\<rparr>
   \<and> spec_score (1 / 1000) (min_ema_spread_pct narrow_zone_strategy)
        (2 / 1000) (min_atr_pct narrow_zone_strategy) 50 50 (50 + 1 / 10 ^ 9) = 13 / 40
   \<and> generate zero_floor_strategy scenario_candle (scenario_indicators (105 / 2))
     = Inl ZeroDivisionError"
  by (simp add: generate_def score_signal_def py_div_def spec_score_def Let_def
      narrow_zone_strategy_def zero_floor_strategy_def default_strategy_def
      scenario_candle_def scenario_indicators_def)

text \<open>
  Claim C7, amended. When every gate passes and both floors are non-zero, \<open>generate\<close>
  returns the side of the trend with reason ok and the score
  \<open>0.45 * min(1, spread / (4 * spread floor)) + 0.35 * max(0, 1 - |rsi - mid| / max(half, 1e-9))
  + 0.20 * min(1, atr% / (4 * atr floor))\<close> clamped to \<open>[0, 1]\<close>, where \<open>mid\<close> and
  \<open>half\<close> are the midpoint and the half width of the zone of the trend's direction; this
  is the stated formula whenever the zone is at least \<open>2e-9\<close> wide. With the default
  parameters, an uptrend, ATR 0.2 percent and EMA spread 0.1 percent of the price and RSI
  52.5, the signal is CALL with score 0.675 and reason ok.
\<close>

theorem generate_score_when_gates_pass:
  assumes "ema_fast ind = Some ef" and "ema_slow ind = Some es" and "atr ind = Some a"
    and "rsi ind = Some r"
    and "0 < candle_close c" and "ef \<noteq> es"
    and "min_atr_pct st \<le> a / candle_close c"
    and "min_ema_spread_pct st \<le> \<bar>ef - es\<bar> / candle_close c"
    and "\<not> (rsi_overbought st \<le> r \<and> es < ef)" and "\<not> (r \<le> rsi_oversold st \<and> ef < es)"
    and "(if es < ef then rsi_long_zone st else rsi_short_zone st) = (lo, hi)"
    and "lo \<le> r" and "r \<le> hi"
    and "min_atr_pct st \<noteq> 0" and "min_ema_spread_pct st \<noteq> 0"
  shows "generate st c ind =
     Inr \<lparr>signal_side = (if es < ef then ''CALL'' else ''PUT''),
          signal_score = max 0 (min 1
            (45 / 100 * min 1 (\<bar>ef - es\<bar> / candle_close c / (4 * min_ema_spread_pct st))
             + 35 / 100 * max 0 (1 - \<bar>r - (lo + hi) / 2\<bar> / max ((hi - lo) / 2) (1 / 10 ^ 9))
             + 20 / 100 * min 1 (a / candle_close c / (4 * min_atr_pct st)))),
          signal_reason = signal_ok\<rparr>
    \<and> (2 / 10 ^ 9 \<le> hi - lo \<longrightarrow>
         generate st c ind =
           Inr \<lparr>signal_side = (if es < ef then ''CALL'' else ''PUT''),
                signal_score = spec_score (\<bar>ef - es\<bar> / candle_close c) (min_ema_spread_pct st)
                                 (a / candle_close c) (min_atr_pct st) r lo hi,
                signal_reason = signal_ok\<rparr>)
    \<and> (st = default_strategy \<and> es < ef \<and> a / candle_close c = 2 / 1000
          \<and> \<bar>ef - es\<bar> / candle_close c = 1 / 1000 \<and> r = 105 / 2 \<longrightarrow>
         generate st c ind =
           Inr \<lparr>signal_side = ''CALL'', signal_score = 27 / 40, signal_reason = signal_ok\<rparr>)"
proof -
  let ?sp = "\<bar>ef - es\<bar> / candle_close c" and ?ap = "a / candle_close c"
  let ?sc = "max 0 (min 1
            (45 / 100 * min 1 (?sp / (4 * min_ema_spread_pct st))
             + 35 / 100 * max 0 (1 - \<bar>r - (lo + hi) / 2\<bar> / max ((hi - lo) / 2) (1 / 10 ^ 9))
             + 20 / 100 * min 1 (?ap / (4 * min_atr_pct st))))"
  have main: "generate st c ind =
     Inr \<lparr>signal_side = (if es < ef then ''CALL'' else ''PUT''), signal_score = ?sc,
          signal_reason = signal_ok\<rparr>"
  proof (cases "es < ef")
    case True
    have ob: "\<not> rsi_overbought st \<le> r" using assms(9) True by blast
    have zone: "rsi_long_zone st = (lo, hi)" using assms(11) True by (simp only: if_True)
    have "generate st c ind = score_signal st ''CALL'' lo hi ?sp ?ap r"
      by (rule generate_uptrend [OF assms(1-5) True assms(7,8) ob zone assms(12,13)])
    then show ?thesis
      by (simp only: score_signal_value [OF assms(14,15)] True if_True)
  next
    case False
    have down: "ef < es" using False assms(6) by (simp only: not_less order_le_less) blast
    have os: "\<not> r \<le> rsi_oversold st" using assms(10) down by blast
    have zone: "rsi_short_zone st = (lo, hi)" using assms(11) False by (simp only: if_False)
    have "generate st c ind = score_signal st ''PUT'' lo hi ?sp ?ap r"
      by (rule generate_downtrend [OF assms(1-5) down assms(7,8) os zone assms(12,13)])
    then show ?thesis
      by (simp only: score_signal_value [OF assms(14,15)] False if_False)
  qed
  have c2: "generate st c ind =
           Inr \<lparr>signal_side = (if es < ef then ''CALL'' else ''PUT''),
                signal_score = spec_score ?sp (min_ema_spread_pct st) ?ap (min_atr_pct st) r lo hi,
                signal_reason = signal_ok\<rparr>"
    if wide: "2 / 10 ^ 9 \<le> hi - lo"
    using main by (simp only: spec_score_agrees [OF wide])
  have c3: "generate st c ind =
           Inr \<lparr>signal_side = ''CALL'', signal_score = 27 / 40, signal_reason = signal_ok\<rparr>"
    if scenario: "st = default_strategy \<and> es < ef \<and> ?ap = 2 / 1000 \<and> ?sp = 1 / 1000 \<and> r = 105 / 2"
  proof -
    have st: "st = default_strategy" using scenario by (rule conjunct1)
    have up: "es < ef" using scenario by (elim conjE)
    have ap: "?ap = 2 / 1000" using scenario by (elim conjE)
    have sp: "?sp = 1 / 1000" using scenario by (elim conjE)
    have r: "r = 105 / 2" using scenario by (elim conjE)
    have "rsi_long_zone st = (lo, hi)" using assms(11) up by (simp only: if_True)
    then have z: "lo = 45" "hi = 60" by (simp_all add: st default_strategy_def)
    have fl: "min_ema_spread_pct st = 5 / 10000" "min_atr_pct st = 1 / 1000"
      by (simp_all add: st default_strategy_def)
    have "?sc = 27 / 40"
      unfolding ap sp r z fl by simp
    then show ?thesis
      using main by (simp only: up if_True)
  qed
  show ?thesis
    apply (rule conjI, rule main)
    apply (rule conjI, rule impI, erule c2)
    apply (rule impI, erule c3)
    done
qed

theorem generate_score_when_gates_pass_witness:
  "generate default_strategy scenario_candle (scenario_indicators (105 / 2))
     = Inr \<lparr>signal_side = ''CALL'', signal_score = 27 / 40, signal_reason = signal_ok\<rparr>
   \<and> (0::real) < 27 / 40"
proof -
  have g: "ema_fast (scenario_indicators (105 / 2)) = Some 1001"
    "ema_slow (scenario_indicators (105 / 2)) = Some 1000"
    "atr (scenario_indicators (105 / 2)) = Some 2"
    "rsi (scenario_indicators (105 / 2)) = Some (105 / 2)"
    "0 < candle_close scenario_candle" "(1001::real) \<noteq> 1000"
    "min_atr_pct default_strategy \<le> 2 / candle_close scenario_candle"
    "min_ema_spread_pct default_strategy \<le> \<bar>1001 - 1000\<bar> / candle_close scenario_candle"
    "\<not> (rsi_overbought default_strategy \<le> 105 / 2 \<and> (1000::real) < 1001)"
    "\<not> (105 / 2 \<le> rsi_oversold default_strategy \<and> (1001::real) < 1000)"
    "(if (1000::real) < 1001 then rsi_long_zone default_strategy else rsi_short_zone default_strategy)
       = (45, 60)"
    "(45::real) \<le> 105 / 2" "(105 / 2 :: real) \<le> 60"
    "min_atr_pct default_strategy \<noteq> 0" "min_ema_spread_pct default_strategy \<noteq> 0"
    by (simp_all add: scenario_indicators_def scenario_candle_def default_strategy_def)
  have s: "(1000::real) < 1001" "2 / candle_close scenario_candle = 2 / 1000"
    "\<bar>1001 - 1000\<bar> / candle_close scenario_candle = 1 / 1000"
    by (simp_all add: scenario_candle_def)
  note t = generate_score_when_gates_pass [OF g, THEN conjunct2, THEN conjunct2, rule_format]
  have "generate default_strategy scenario_candle (scenario_indicators (105 / 2))
     = Inr \<lparr>signal_side = ''CALL'', signal_score = 27 / 40, signal_reason = signal_ok\<rparr>"
    by (rule t) (intro conjI refl s)
  then show ?thesis by simp
qed

section \<open>Indicator engine: the RSI\<close>

lemma wilder_nonneg:
  assumes "0 \<le> prev" and "0 \<le> x" and "1 < period"
  shows "0 \<le> wilder prev period x"
proof -
  have "0 \<le> prev * (of_int period - 1)" using assms(1,3) by simp
  then have "0 \<le> prev * (of_int period - 1) + x" using assms(2) by linarith
  moreover have "(0::real) < of_int period" using assms(3) by simp
  ultimately show ?thesis unfolding wilder_def by (rule divide_nonneg_pos)
qed

lemma smooth_gain_loss_ok:
  assumes "engine_ok eng" and "1 < rsi_period eng" and "0 \<le> gain" and "0 \<le> loss"
  shows "\<exists>g l. smooth_gain_loss eng gain loss = Inr (g, l) \<and> 0 \<le> g \<and> 0 \<le> l"
proof (cases "avg_gain eng")
  case None
  then show ?thesis using assms(3,4) by (simp add: smooth_gain_loss_def)
next
  case (Some g)
  then obtain l where l: "avg_loss eng = Some l" and pos: "0 \<le> g" "0 \<le> l"
    using assms(1) by (auto simp: engine_ok_def split: option.splits)
  have "0 \<le> wilder g (rsi_period eng) gain" "0 \<le> wilder l (rsi_period eng) loss"
    using pos assms(2,3,4) by (simp_all add: wilder_nonneg)
  then show ?thesis using Some l by (simp add: smooth_gain_loss_def)
qed

lemma rsi_value_ok:
  assumes "0 \<le> g" and "0 \<le> l"
  shows "\<exists>v. rsi_value n p g l = Inr v \<and> 0 \<le> v \<and> v \<le> 100
           \<and> (n < p \<longrightarrow> v = 50) \<and> (p \<le> n \<and> l = 0 \<longrightarrow> v = 100)"
proof (cases "n < p")
  case True
  then show ?thesis by (simp add: rsi_value_def)
next
  case warm: False
  show ?thesis
  proof (cases "l = 0")
    case True
    then show ?thesis using warm by (simp add: rsi_value_def)
  next
    case False
    define rs where "rs = g / max l (1 / 10 ^ 12)"
    have m: "0 < max l (1 / 10 ^ 12)" by (simp add: less_max_iff_disj)
    have rs: "0 \<le> rs" unfolding rs_def using assms(1) m by simp
    have d1: "py_div g (max l (1 / 10 ^ 12)) = Inr rs"
      using m by (simp add: py_div_def rs_def)
    have d2: "py_div 100 (1 + rs) = Inr (100 / (1 + rs))"
      using rs by (simp add: py_div_def)
    have v: "rsi_value n p g l = Inr (100 - 100 / (1 + rs))"
      unfolding rsi_value_def d1 using warm False by (simp add: d2)
    have "0 < 100 / (1 + rs)" using rs by simp
    moreover have "100 / (1 + rs) \<le> 100" using rs by (simp add: field_simps)
    ultimately show ?thesis using v warm False by simp
  qed
qed

lemma ema_ok: "1 < period \<Longrightarrow> \<exists>v. ema prev x period = Inr v"
  by (simp add: ema_def py_div_def)

lemma update_invalid: "validate_periods eng = Some e \<Longrightarrow> update eng c = Inl e"
  by (simp add: update_def)

lemma validate_periods_None:
  "validate_periods eng = None \<longleftrightarrow>
     1 < ema_fast_period eng \<and> 1 < ema_slow_period eng \<and> 1 < atr_period eng \<and> 1 < rsi_period eng"
  by (simp add: validate_periods_def)

lemma validate_periods_cong:
  assumes "ema_fast_period e' = ema_fast_period e" and "ema_slow_period e' = ema_slow_period e"
    and "atr_period e' = atr_period e" and "rsi_period e' = rsi_period e"
  shows "validate_periods e' = validate_periods e"
  using assms by (simp add: validate_periods_def)

text \<open>One update of an engine in a reachable state with valid periods.\<close>

lemma update_ok:
  assumes ok: "engine_ok eng" and valid: "validate_periods eng = None"
  shows "\<exists>eng' ind v. update eng c = Inr (eng', ind)
     \<and> engine_ok eng' \<and> validate_periods eng' = None
     \<and> rsi_period eng' = rsi_period eng \<and> bars eng' = bars eng + 1
     \<and> rsi ind = Some v \<and> 0 \<le> v \<and> v \<le> 100
     \<and> (bars eng' < rsi_period eng' \<longrightarrow> v = 50)
     \<and> (rsi_period eng' \<le> bars eng' \<and> avg_loss eng' = Some 0 \<longrightarrow> v = 100)"
proof -
  have periods: "1 < ema_fast_period eng" "1 < ema_slow_period eng" "1 < rsi_period eng"
    using valid by (simp_all add: validate_periods_None)
  define cl where "cl = candle_close c"
  define change where "change = (case prev_close eng of None \<Rightarrow> 0 | Some p \<Rightarrow> cl - p)"
  obtain ef where ef: "ema (st_ema_fast eng) cl (ema_fast_period eng) = Inr ef"
    using ema_ok [OF periods(1)] by blast
  obtain es where es: "ema (st_ema_slow eng) cl (ema_slow_period eng) = Inr es"
    using ema_ok [OF periods(2)] by blast
  obtain g l where gl: "smooth_gain_loss eng (max change 0) (max (- change) 0) = Inr (g, l)"
    and pos: "0 \<le> g" "0 \<le> l"
    using smooth_gain_loss_ok [OF ok periods(3), of "max change 0" "max (- change) 0"] by auto
  obtain v where v: "rsi_value (bars eng + 1) (rsi_period eng) g l = Inr v"
    and range: "0 \<le> v" "v \<le> 100"
    and warm: "bars eng + 1 < rsi_period eng \<longrightarrow> v = 50"
    and full: "rsi_period eng \<le> bars eng + 1 \<and> l = 0 \<longrightarrow> v = 100"
    using rsi_value_ok [OF pos, of "bars eng + 1" "rsi_period eng"] by blast
  define new_atr where "new_atr = (case st_atr eng of
       None \<Rightarrow> true_range (prev_close eng) c
     | Some a \<Rightarrow> wilder a (atr_period eng) (true_range (prev_close eng) c))"
  define eng' where "eng' = eng\<lparr>bars := bars eng + 1, st_ema_fast := Some ef,
       st_ema_slow := Some es, prev_close := Some cl, st_atr := Some new_atr,
       avg_gain := Some g, avg_loss := Some l\<rparr>"
  define ind where "ind = \<lparr>ema_fast = Some ef, ema_slow = Some es, atr = Some new_atr, rsi = Some v\<rparr>"
  have res: "update eng c = Inr (eng', ind)"
    unfolding update_def Let_def valid cl_def [symmetric] change_def [symmetric]
      option.case ef es sum.case gl prod.case v new_atr_def [symmetric]
      eng'_def [symmetric] ind_def [symmetric]
    by (rule refl)
  have ok': "engine_ok eng'" using pos by (simp add: engine_ok_def eng'_def)
  have valid': "validate_periods eng' = None"
    using valid validate_periods_cong [of eng' eng] by (simp add: eng'_def)
  have facts: "rsi_period eng' = rsi_period eng" "bars eng' = bars eng + 1"
    "avg_loss eng' = Some l" "rsi ind = Some v"
    by (simp_all add: eng'_def ind_def)
  show ?thesis
    apply (rule exI [of _ eng'], rule exI [of _ ind], rule exI [of _ v])
    using res ok' valid' range warm full by (simp add: facts)
qed

lemma feed_candles_ok:
  assumes "engine_ok eng" and "feed_candles eng cs = Inr outs"
  shows "length outs = length cs
    \<and> (\<forall>i < length outs. \<exists>v.
          rsi (snd (outs ! i)) = Some v \<and> 0 \<le> v \<and> v \<le> 100
          \<and> bars (fst (outs ! i)) = bars eng + int i + 1
          \<and> (bars eng + int i + 1 < rsi_period eng \<longrightarrow> v = 50)
          \<and> (rsi_period eng \<le> bars eng + int i + 1 \<and> avg_loss (fst (outs ! i)) = Some 0
                \<longrightarrow> v = 100))"
  using assms
proof (induction cs arbitrary: eng outs)
  case Nil
  then show ?case by simp
next
  case (Cons c cs)
  have valid: "validate_periods eng = None"
  proof (cases "validate_periods eng")
    case None
    then show ?thesis .
  next
    case (Some e)
    then have "update eng c = Inl e" by (rule update_invalid)
    then show ?thesis using Cons.prems(2) by simp
  qed
  obtain eng' ind v where up: "update eng c = Inr (eng', ind)"
    and ok': "engine_ok eng'"
    and per: "rsi_period eng' = rsi_period eng" and bars': "bars eng' = bars eng + 1"
    and v: "rsi ind = Some v" "0 \<le> v" "v \<le> 100"
    and warm: "bars eng' < rsi_period eng' \<longrightarrow> v = 50"
    and full: "rsi_period eng' \<le> bars eng' \<and> avg_loss eng' = Some 0 \<longrightarrow> v = 100"
    using update_ok [OF Cons.prems(1) valid, of c] by blast
  obtain outs' where rest: "feed_candles eng' cs = Inr outs'" and outs: "outs = (eng', ind) # outs'"
    using Cons.prems(2) up by (auto split: sum.splits)
  note ih = Cons.IH [OF ok' rest]
  have len: "length outs = length (c # cs)" using ih outs by simp
  have elems: "\<exists>v. rsi (snd (outs ! i)) = Some v \<and> 0 \<le> v \<and> v \<le> 100
          \<and> bars (fst (outs ! i)) = bars eng + int i + 1
          \<and> (bars eng + int i + 1 < rsi_period eng \<longrightarrow> v = 50)
          \<and> (rsi_period eng \<le> bars eng + int i + 1 \<and> avg_loss (fst (outs ! i)) = Some 0
                \<longrightarrow> v = 100)"
    if i: "i < length outs" for i
  proof (cases i)
    case 0
    then show ?thesis
      using v warm full per bars' by (simp add: outs)
  next
    case (Suc j)
    then have j: "j < length outs'" using i outs by simp
    have shift: "bars eng' + int j + 1 = bars eng + int i + 1" using bars' Suc by simp
    show ?thesis
      using ih [THEN conjunct2, rule_format, OF j]
      unfolding shift per by (simp add: outs Suc)
  qed
  show ?case using len elems by blast
qed

lemma feed_candles_total:
  assumes "engine_ok eng" and "validate_periods eng = None"
  shows "\<exists>outs. feed_candles eng cs = Inr outs"
  using assms
proof (induction cs arbitrary: eng)
  case Nil
  then show ?case by simp
next
  case (Cons c cs)
  obtain eng' ind where up: "update eng c = Inr (eng', ind)"
    and ok': "engine_ok eng'" and valid': "validate_periods eng' = None"
    using update_ok [OF Cons.prems, of c] by blast
  obtain outs' where "feed_candles eng' cs = Inr outs'"
    using Cons.IH [OF ok' valid'] by blast
  then show ?case using up by simp
qed

lemma fresh_engine_ok: "engine_ok (fresh_engine fp sp ap rp)"
  by (simp add: engine_ok_def fresh_engine_def)

text \<open>
  Claim C8. Feeding any sequence of candles to a fresh engine whose periods are all above 1
  returns one indicator set per candle. In every indicator set returned the RSI is between
  0 and 100; after the i-th candle the bar count is i, and the RSI is exactly 50 while the
  bar count is below the RSI period, and exactly 100 when the bar count has reached the
  period and the smoothed average loss is exactly 0.
\<close>

theorem rsi_in_range:
  "(1 < fp \<and> 1 < sp \<and> 1 < ap \<and> 1 < rp \<longrightarrow>
      (\<exists>outs. feed_candles (fresh_engine fp sp ap rp) cs = Inr outs))
   \<and> (\<forall>outs. feed_candles (fresh_engine fp sp ap rp) cs = Inr outs \<longrightarrow>
        length outs = length cs
        \<and> (\<forall>i < length outs. \<exists>v.
              rsi (snd (outs ! i)) = Some v \<and> 0 \<le> v \<and> v \<le> 100
              \<and> bars (fst (outs ! i)) = int i + 1
              \<and> (int i + 1 < rp \<longrightarrow> v = 50)
              \<and> (rp \<le> int i + 1 \<and> avg_loss (fst (outs ! i)) = Some 0 \<longrightarrow> v = 100)))"
proof (rule conjI)
  show "1 < fp \<and> 1 < sp \<and> 1 < ap \<and> 1 < rp \<longrightarrow>
      (\<exists>outs. feed_candles (fresh_engine fp sp ap rp) cs = Inr outs)"
  proof (rule impI)
    assume "1 < fp \<and> 1 < sp \<and> 1 < ap \<and> 1 < rp"
    then have "validate_periods (fresh_engine fp sp ap rp) = None"
      by (simp add: validate_periods_def fresh_engine_def)
    then show "\<exists>outs. feed_candles (fresh_engine fp sp ap rp) cs = Inr outs"
      by (rule feed_candles_total [OF fresh_engine_ok])
  qed
next
  have b: "bars (fresh_engine fp sp ap rp) = 0" "rsi_period (fresh_engine fp sp ap rp) = rp"
    by (simp_all add: fresh_engine_def)
  show "\<forall>outs. feed_candles (fresh_engine fp sp ap rp) cs = Inr outs \<longrightarrow>
        length outs = length cs
        \<and> (\<forall>i < length outs. \<exists>v.
              rsi (snd (outs ! i)) = Some v \<and> 0 \<le> v \<and> v \<le> 100
              \<and> bars (fst (outs ! i)) = int i + 1
              \<and> (int i + 1 < rp \<longrightarrow> v = 50)
              \<and> (rp \<le> int i + 1 \<and> avg_loss (fst (outs ! i)) = Some 0 \<longrightarrow> v = 100))"
  proof (rule allI, rule impI)
    fix outs
    assume r: "feed_candles (fresh_engine fp sp ap rp) cs = Inr outs"
    show "length outs = length cs
        \<and> (\<forall>i < length outs. \<exists>v.
              rsi (snd (outs ! i)) = Some v \<and> 0 \<le> v \<and> v \<le> 100
              \<and> bars (fst (outs ! i)) = int i + 1
              \<and> (int i + 1 < rp \<longrightarrow> v = 50)
              \<and> (rp \<le> int i + 1 \<and> avg_loss (fst (outs ! i)) = Some 0 \<longrightarrow> v = 100))"
      using feed_candles_ok [OF fresh_engine_ok r] unfolding b by simp
  qed
qed

theorem rsi_in_range_witness:
  "\<exists>outs. feed_candles (fresh_engine 2 3 2 3) (map flat_candle [10, 11, 12, 11]) = Inr outs
     \<and> length outs = 4
     \<and> map (rsi \<circ> snd) outs = [Some 50, Some 50, Some 100, Some (1000 / 19)]
     \<and> map (avg_loss \<circ> fst) outs = [Some 0, Some 0, Some 0, Some (1 / 3)]"
proof -
  let ?run = "feed_candles (fresh_engine 2 3 2 3) (map flat_candle [10, 11, 12, 11])"
  note t = rsi_in_range [of 2 3 2 3 "map flat_candle [10, 11, 12, 11]"]
  have "(1::int) < 2 \<and> (1::int) < 3 \<and> (1::int) < 2 \<and> (1::int) < 3" by simp
  with t obtain outs where outs: "?run = Inr outs" by blast
  have len: "length outs = 4" using t outs by simp
  have r: "map (rsi \<circ> snd) (projr ?run) = [Some 50, Some 50, Some 100, Some (1000 / 19)]"
    by code_simp
  have a: "map (avg_loss \<circ> fst) (projr ?run) = [Some 0, Some 0, Some 0, Some (1 / 3)]"
    by code_simp
  show ?thesis
    using outs len r a by simp
qed

section \<open>Trade worker: what is handled inside the loop\<close>

lemma execute_branch_queue: "queue (fst (execute_branch s env)) = queue s"
  by (simp add: execute_branch_def log_line_def Let_def split: option.splits sum.splits)

lemma except_handler_queue: "queue (fst (except_handler s env tid)) = queue s"
  by (simp add: except_handler_def log_line_def Let_def split: option.splits)

lemma except_handler_pending: "snd (except_handler s env tid) = error_log_event env"
  by (simp add: except_handler_def Let_def)

lemma try_body_queue:
  assumes "\<not> (ks_load env = None \<and> \<not> ks_enabled env \<and> risk_decision env = Inr True
              \<and> \<not> trade_in_flight s \<and> dry_run env)"
  shows "queue (fst (try_body s env)) = queue s"
proof (cases "ks_load env")
  case (Some e)
  then show ?thesis by (simp add: try_body_def)
next
  case None
  show ?thesis
  proof (cases "risk_decision env")
    case (Inl e)
    then show ?thesis using None by (simp add: try_body_def log_line_def)
  next
    case (Inr ok)
    have "queue (fst (execute_branch (s\<lparr>trade_in_flight := True\<rparr>) env)) = queue s"
      by (simp add: execute_branch_queue)
    then show ?thesis
      using None Inr assms by (auto simp: try_body_def log_line_def Let_def)
  qed
qed

lemma finally_block_ok:
  assumes "0 < unfinished_tasks (queue s)"
  shows "finally_block s =
     Inr (s\<lparr>trade_in_flight := False,
             queue := (queue s)\<lparr>unfinished_tasks := unfinished_tasks (queue s) - 1\<rparr>\<rparr>)"
  using assms by (simp add: finally_block_def task_done_def Let_def)

text \<open>
  Every path but the dry-run skip is handled inside the loop: with the intent still
  counted as unfinished and an error event that can be recorded, the pass ends without an
  exception, the in-flight guard is released and the intent is marked done once.
\<close>

lemma other_paths_handled:
  assumes "0 < unfinished_tasks (queue s)" and "error_log_event env = None"
    and "\<not> (ks_load env = None \<and> \<not> ks_enabled env \<and> risk_decision env = Inr True
              \<and> \<not> trade_in_flight s \<and> dry_run env)"
  shows "\<exists>s'. process_intent s env = Inr s' \<and> \<not> trade_in_flight s'
     \<and> unfinished_tasks (queue s') = unfinished_tasks (queue s) - 1
     \<and> items (queue s') = items (queue s)"
proof -
  obtain s1 tid fl where tb: "try_body s env = (s1, tid, fl)" by (cases "try_body s env") auto
  have q1: "queue s1 = queue s" using try_body_queue [OF assms(3)] tb by simp
  define hp where "hp = (case fl of Raise e \<Rightarrow> except_handler s1 env tid | _ \<Rightarrow> (s1, None))"
  obtain s2 pending where h: "hp = (s2, pending)" by (cases hp) auto
  have q2: "queue s2 = queue s"
    using h q1 except_handler_queue [of s1 env tid] by (cases fl) (auto simp: hp_def)
  have p: "pending = None"
    using h assms(2) except_handler_pending [of s1 env tid] by (cases fl) (auto simp: hp_def)
  have pos: "0 < unfinished_tasks (queue s2)" using assms(1) q2 by simp
  have "process_intent s env =
     Inr (s2\<lparr>trade_in_flight := False,
              queue := (queue s2)\<lparr>unfinished_tasks := unfinished_tasks (queue s2) - 1\<rparr>\<rparr>)"
    unfolding process_intent_def tb prod.case hp_def [symmetric] h
    by (simp add: finally_block_ok [OF pos] p)
  then show ?thesis using q2 by simp
qed

text \<open>A failed execution leaves no speculative row behind.\<close>

lemma failed_execution_rolled_back:
  assumes "ks_load env = None" and "\<not> ks_enabled env" and "risk_decision env = Inr True"
    and "\<not> trade_in_flight s" and "\<not> dry_run env" and "insert_trade env = None"
    and "execution env = Inl e" and "delete_trade env = None" and "error_log_event env = None"
    and "0 < unfinished_tasks (queue s)" and "trade_id env \<notin> set (open_trades s)"
  shows "\<exists>s'. process_intent s env = Inr s' \<and> open_trades s' = open_trades s
     \<and> \<not> trade_in_flight s'"
  using assms
  by (simp add: process_intent_def try_body_def execute_branch_def except_handler_def
      finally_block_def task_done_def log_line_def Let_def)

text \<open>
  Claim C1 on the code: the dry-run skip ends the worker. The dry-run branch calls
  \<open>task_done\<close> and then leaves through \<open>continue\<close>, so the \<open>finally\<close> block calls
  \<open>task_done\<close> a second time for the same intent. With one intent queued the second
  call raises \<open>ValueError\<close> out of the loop at once. With two intents queued the first
  pass ends normally, having marked both as done, and the pass for the second intent
  raises in the \<open>finally\<close> block, here after a kill-switch skip.
\<close>

theorem dry_run_skip_ends_worker:
  "trade_worker (worker_start [demo_intent]) [dry_run_env] = Inl ValueError
   \<and> trade_worker (worker_start [demo_intent, demo_intent]) [dry_run_env, killswitch_env]
       = Inl ValueError
   \<and> trade_worker (worker_start [demo_intent, demo_intent]) [killswitch_env, failing_env]
       = Inr \<lparr>queue = \<lparr>maxsize = 3, items = [], unfinished_tasks = 0\<rparr>,
              trade_in_flight = False, open_trades = [], closed_trades = [],
              worker_log = [(WARNING, ''killswitch_enabled_skip_trade''),
                            (INFO, ''trade_execute_start''), (ERROR, ''trade_worker_error'')]\<rparr>"
  by code_simp

end
